theory Spec2Isabelle
  imports Main "HOL-Library.Word"
begin

unbundle bit_operations_syntax

section \<open>The platform\<close>

text \<open>
  \<^verbatim>\<open>channel_stack.c\<close> is written against \<^verbatim>\<open>channel_stack.h\<close> and the platform
  header, which fix the alignment constant, the sizes of the four structures and the
  value of the status code \<^verbatim>\<open>GRPC_STATUS_CANCELLED\<close>.
  They are parameters of the model. \<^verbatim>\<open>size_t\<close>, \<^verbatim>\<open>gpr_uintptr\<close> and \<^verbatim>\<open>char *\<close>
  are words of one width \<open>'a\<close>: sums, products and pointer arithmetic wrap around.
\<close>

record (overloaded) 'a platform =
  GPR_MAX_ALIGNMENT :: "'a word"
  sizeof_grpc_channel_stack :: "'a word"
  sizeof_grpc_channel_element :: "'a word"
  sizeof_grpc_call_stack :: "'a word"
  sizeof_grpc_call_element :: "'a word"
  GRPC_STATUS_CANCELLED :: int

text \<open>
  Modelled from the spec: the filter descriptor \<^verbatim>\<open>grpc_channel_filter\<close> is declared
  in \<^verbatim>\<open>channel_stack.h\<close>, which is not among the sources. It declares the byte size
  of its channel-scoped and of its call-scoped state, and it has four lifecycle hooks
  and two operation handlers. The source reads the two sizes and calls the six
  function pointers; a call of a function pointer is recorded as an event naming the
  descriptor, which carries a name to tell filters apart.
\<close>

record (overloaded) 'a grpc_channel_filter =
  sizeof_call_data :: "'a word"
  sizeof_channel_data :: "'a word"
  name :: string

text \<open>
  Modelled from the spec: the two operation structures \<^verbatim>\<open>grpc_transport_op\<close> and
  \<^verbatim>\<open>grpc_channel_op\<close> are declared in headers that are not among the sources. A
  transport operation carries a cancellation status, a channel operation a signed
  direction (+1 or -1). The source names these two fields (\<^verbatim>\<open>cancel_with_status\<close>,
  \<^verbatim>\<open>dir\<close>); the others are kept by name, each with its value as an integer, so that
  \<^verbatim>\<open>memset(&op, 0, sizeof(op))\<close> is the structure whose every field is 0.
\<close>

record grpc_transport_op =
  cancel_with_status :: int
  transport_op_fields :: "string \<Rightarrow> int"

record grpc_channel_op =
  dir :: int
  channel_op_fields :: "string \<Rightarrow> int"

text \<open>
  The ways the process stops: the three \<^verbatim>\<open>GPR_ASSERT\<close>s, \<^verbatim>\<open>abort()\<close>, and a
  read of memory that holds no initialised object (undefined behaviour in C).
\<close>

datatype error =
  Alignment_not_power_of_two
  | User_data_not_above_stack
  | Size_mismatch
  | Invalid_access
  | Aborted

text \<open>
  Calls through the function pointers of a filter leave \<^verbatim>\<open>channel_stack.c\<close>. Each is
  recorded with the descriptor \<open>'f\<close> it belongs to and its arguments (pointers \<open>'p\<close>,
  the two flags of \<^verbatim>\<open>init_channel_elem\<close>, the operation handed over); the filter's
  code is taken to leave the headers and element tables as they are.
\<close>

datatype ('f, 'p) hook_call =
  Init_channel_elem 'f 'p 'p 'p bool bool
  | Destroy_channel_elem 'f 'p
  | Init_call_elem 'f 'p 'p 'p
  | Destroy_call_elem 'f 'p
  | Start_transport_op 'f 'p grpc_transport_op
  | Channel_op 'f 'p 'p grpc_channel_op

type_synonym 'a event = "('a grpc_channel_filter, 'a word) hook_call"

text \<open>
  Memory, one map per structure field, from the address of the structure to the
  field's value; an address outside a map holds no such field yet.
  \<^verbatim>\<open>grpc_channel_stack\<close> has \<^verbatim>\<open>count\<close> and \<^verbatim>\<open>call_stack_size\<close>,
  \<^verbatim>\<open>grpc_channel_element\<close> has \<^verbatim>\<open>filter\<close> and \<^verbatim>\<open>channel_data\<close>,
  \<^verbatim>\<open>grpc_call_stack\<close> has \<^verbatim>\<open>count\<close>, and \<^verbatim>\<open>grpc_call_element\<close> has
  \<^verbatim>\<open>filter\<close>, \<^verbatim>\<open>channel_data\<close> and \<^verbatim>\<open>call_data\<close>.
\<close>

record (overloaded) 'a state =
  channel_stack_count :: "'a word \<rightharpoonup> 'a word"
  channel_stack_call_stack_size :: "'a word \<rightharpoonup> 'a word"
  channel_elem_filter :: "'a word \<rightharpoonup> 'a grpc_channel_filter"
  channel_elem_channel_data :: "'a word \<rightharpoonup> 'a word"
  call_stack_count :: "'a word \<rightharpoonup> 'a word"
  call_elem_filter :: "'a word \<rightharpoonup> 'a grpc_channel_filter"
  call_elem_channel_data :: "'a word \<rightharpoonup> 'a word"
  call_elem_call_data :: "'a word \<rightharpoonup> 'a word"
  trace :: "'a event list"

text \<open>
  A function either returns a value or stops the process; both leave a state behind.
\<close>

datatype ('r, 's) result = Return 'r 's | Fail error 's

fun state_of :: "('r, 's) result \<Rightarrow> 's" where
  "state_of (Return r s) = s"
| "state_of (Fail e s) = s"

section \<open>Sizing\<close>

text \<open>
  \<^verbatim>\<open>#define ROUND_UP_TO_ALIGNMENT_SIZE(x) (((x) + GPR_MAX_ALIGNMENT - 1) & ~(GPR_MAX_ALIGNMENT - 1))\<close>
\<close>

definition ROUND_UP_TO_ALIGNMENT_SIZE :: "'a::len platform \<Rightarrow> 'a word \<Rightarrow> 'a word" where
  "ROUND_UP_TO_ALIGNMENT_SIZE P x =
     (x + GPR_MAX_ALIGNMENT P - 1) AND NOT (GPR_MAX_ALIGNMENT P - 1)"

text \<open>
  The loop of \<^verbatim>\<open>grpc_channel_stack_size\<close>. The counter \<open>i\<close> stays below
  \<open>filter_count\<close>, so it never wraps and is kept as a natural number. Reading
  \<^verbatim>\<open>filters[i]\<close> past the end of the array is an invalid access.
\<close>

function stack_size_loop ::
  "'a::len platform \<Rightarrow> 'a grpc_channel_filter list \<Rightarrow> nat \<Rightarrow> nat \<Rightarrow> 'a word \<Rightarrow> error + 'a word"
where
  "stack_size_loop P filters filter_count i sz =
     (if i < filter_count then
        (if i < length filters then
           stack_size_loop P filters filter_count (i + 1)
             (sz + ROUND_UP_TO_ALIGNMENT_SIZE P (sizeof_channel_data (filters ! i)))
         else Inl Invalid_access)
      else Inr sz)"
  by pat_completeness auto
termination
  by (relation "measure (\<lambda>(P, filters, filter_count, i, sz). filter_count - i)") auto

declare stack_size_loop.simps [simp del]

definition grpc_channel_stack_size ::
  "'a::len platform \<Rightarrow> 'a grpc_channel_filter list \<Rightarrow> 'a word \<Rightarrow> error + 'a word"
where
  "grpc_channel_stack_size P filters filter_count =
     (let sz = ROUND_UP_TO_ALIGNMENT_SIZE P (sizeof_grpc_channel_stack P) +
               ROUND_UP_TO_ALIGNMENT_SIZE P (filter_count * sizeof_grpc_channel_element P)
      in if GPR_MAX_ALIGNMENT P AND (GPR_MAX_ALIGNMENT P - 1) = 0
         then stack_size_loop P filters (unat filter_count) 0 sz
         else Inl Alignment_not_power_of_two)"

section \<open>Element access and owner recovery\<close>

definition CHANNEL_ELEMS_FROM_STACK :: "'a::len platform \<Rightarrow> 'a word \<Rightarrow> 'a word" where
  "CHANNEL_ELEMS_FROM_STACK P stk =
     stk + ROUND_UP_TO_ALIGNMENT_SIZE P (sizeof_grpc_channel_stack P)"

definition CALL_ELEMS_FROM_STACK :: "'a::len platform \<Rightarrow> 'a word \<Rightarrow> 'a word" where
  "CALL_ELEMS_FROM_STACK P stk =
     stk + ROUND_UP_TO_ALIGNMENT_SIZE P (sizeof_grpc_call_stack P)"

text \<open>Adding an index to an element pointer advances it by whole elements.\<close>

definition grpc_channel_stack_element :: "'a::len platform \<Rightarrow> 'a word \<Rightarrow> 'a word \<Rightarrow> 'a word" where
  "grpc_channel_stack_element P channel_stack index =
     CHANNEL_ELEMS_FROM_STACK P channel_stack + index * sizeof_grpc_channel_element P"

definition grpc_call_stack_element :: "'a::len platform \<Rightarrow> 'a word \<Rightarrow> 'a word \<Rightarrow> 'a word" where
  "grpc_call_stack_element P call_stack index =
     CALL_ELEMS_FROM_STACK P call_stack + index * sizeof_grpc_call_element P"

definition grpc_channel_stack_last_element ::
  "'a::len platform \<Rightarrow> 'a word \<Rightarrow> 'a state \<Rightarrow> error + 'a word"
where
  "grpc_channel_stack_last_element P channel_stack s =
     (case channel_stack_count s channel_stack of
        None \<Rightarrow> Inl Invalid_access
      | Some n \<Rightarrow> Inr (grpc_channel_stack_element P channel_stack (n - 1)))"

definition grpc_channel_stack_from_top_element :: "'a::len platform \<Rightarrow> 'a word \<Rightarrow> 'a word" where
  "grpc_channel_stack_from_top_element P elem =
     elem - ROUND_UP_TO_ALIGNMENT_SIZE P (sizeof_grpc_channel_stack P)"

definition grpc_call_stack_from_top_element :: "'a::len platform \<Rightarrow> 'a word \<Rightarrow> 'a word" where
  "grpc_call_stack_from_top_element P elem =
     elem - ROUND_UP_TO_ALIGNMENT_SIZE P (sizeof_grpc_call_stack P)"

section \<open>Channel stack lifecycle\<close>

text \<open>
  One pass of the loop body of \<^verbatim>\<open>grpc_channel_stack_init\<close> up to the call of the
  hook: the two stores into \<^verbatim>\<open>elems[i]\<close> and the call of
  \<^verbatim>\<open>init_channel_elem\<close> through the filter stored the line before.
\<close>

definition channel_init_step ::
  "'a::len platform \<Rightarrow> 'a grpc_channel_filter list \<Rightarrow> 'a word \<Rightarrow> 'a word \<Rightarrow> 'a word \<Rightarrow>
   'a word \<Rightarrow> nat \<Rightarrow> 'a word \<Rightarrow> 'a state \<Rightarrow> 'a state"
where
  "channel_init_step P filters filter_count args metadata_context elems i user_data s =
     (let e = elems + of_nat i * sizeof_grpc_channel_element P
      in s\<lparr>channel_elem_filter := (channel_elem_filter s)(e \<mapsto> filters ! i),
            channel_elem_channel_data := (channel_elem_channel_data s)(e \<mapsto> user_data),
            trace := trace s @
              [Init_channel_elem (filters ! i) e args metadata_context
                 (i = 0) (of_nat i = filter_count - 1)]\<rparr>)"

function channel_init_loop ::
  "'a::len platform \<Rightarrow> 'a grpc_channel_filter list \<Rightarrow> 'a word \<Rightarrow> 'a word \<Rightarrow> 'a word \<Rightarrow>
   'a word \<Rightarrow> nat \<Rightarrow> 'a word \<Rightarrow> 'a word \<Rightarrow> 'a state \<Rightarrow> ('a word \<times> 'a word, 'a state) result"
where
  "channel_init_loop P filters filter_count args metadata_context elems i user_data call_size s =
     (if i < unat filter_count then
        (if i < length filters then
           channel_init_loop P filters filter_count args metadata_context elems (i + 1)
             (user_data + ROUND_UP_TO_ALIGNMENT_SIZE P (sizeof_channel_data (filters ! i)))
             (call_size + ROUND_UP_TO_ALIGNMENT_SIZE P (sizeof_call_data (filters ! i)))
             (channel_init_step P filters filter_count args metadata_context elems i user_data s)
         else Fail Invalid_access s)
      else Return (user_data, call_size) s)"
  by pat_completeness auto
termination
  by (relation "measure (\<lambda>(P, filters, filter_count, args, metadata_context, elems, i, rest).
        unat filter_count - i)") auto

declare channel_init_loop.simps [simp del]

text \<open>
  \<^verbatim>\<open>grpc_channel_stack_init\<close> up to the end of its loop: the result holds the
  user-data cursor and the accumulated call-stack size.
\<close>

definition channel_stack_init_cursor ::
  "'a::len platform \<Rightarrow> 'a grpc_channel_filter list \<Rightarrow> 'a word \<Rightarrow> 'a word \<Rightarrow> 'a word \<Rightarrow>
   'a word \<Rightarrow> 'a state \<Rightarrow> ('a word \<times> 'a word, 'a state) result"
where
  "channel_stack_init_cursor P filters filter_count args metadata_context stack s =
     (let call_size = ROUND_UP_TO_ALIGNMENT_SIZE P (sizeof_grpc_call_stack P) +
                      ROUND_UP_TO_ALIGNMENT_SIZE P (filter_count * sizeof_grpc_call_element P);
          s1 = s\<lparr>channel_stack_count := (channel_stack_count s)(stack \<mapsto> filter_count)\<rparr>;
          elems = CHANNEL_ELEMS_FROM_STACK P stack;
          user_data = elems +
            ROUND_UP_TO_ALIGNMENT_SIZE P (filter_count * sizeof_grpc_channel_element P)
      in channel_init_loop P filters filter_count args metadata_context elems 0
           user_data call_size s1)"

definition grpc_channel_stack_init ::
  "'a::len platform \<Rightarrow> 'a grpc_channel_filter list \<Rightarrow> 'a word \<Rightarrow> 'a word \<Rightarrow> 'a word \<Rightarrow>
   'a word \<Rightarrow> 'a state \<Rightarrow> (unit, 'a state) result"
where
  "grpc_channel_stack_init P filters filter_count args metadata_context stack s =
     (case channel_stack_init_cursor P filters filter_count args metadata_context stack s of
        Fail e s2 \<Rightarrow> Fail e s2
      | Return (user_data, call_size) s2 \<Rightarrow>
          if \<not> stack < user_data then Fail User_data_not_above_stack s2
          else
            (case grpc_channel_stack_size P filters filter_count of
               Inl e \<Rightarrow> Fail e s2
             | Inr sz \<Rightarrow>
                 if user_data - stack \<noteq> sz then Fail Size_mismatch s2
                 else Return ()
                   (s2\<lparr>channel_stack_call_stack_size :=
                          (channel_stack_call_stack_size s2)(stack \<mapsto> call_size)\<rparr>)))"

function channel_destroy_loop ::
  "'a::len platform \<Rightarrow> 'a word \<Rightarrow> nat \<Rightarrow> nat \<Rightarrow> 'a state \<Rightarrow> (unit, 'a state) result"
where
  "channel_destroy_loop P channel_elems count i s =
     (if i < count then
        (let e = channel_elems + of_nat i * sizeof_grpc_channel_element P
         in case channel_elem_filter s e of
              None \<Rightarrow> Fail Invalid_access s
            | Some f \<Rightarrow>
                channel_destroy_loop P channel_elems count (i + 1)
                  (s\<lparr>trace := trace s @ [Destroy_channel_elem f e]\<rparr>))
      else Return () s)"
  by pat_completeness auto
termination
  by (relation "measure (\<lambda>(P, channel_elems, count, i, s). count - i)") auto

declare channel_destroy_loop.simps [simp del]

definition grpc_channel_stack_destroy ::
  "'a::len platform \<Rightarrow> 'a word \<Rightarrow> 'a state \<Rightarrow> (unit, 'a state) result"
where
  "grpc_channel_stack_destroy P stack s =
     (let channel_elems = CHANNEL_ELEMS_FROM_STACK P stack
      in case channel_stack_count s stack of
           None \<Rightarrow> Fail Invalid_access s
         | Some count \<Rightarrow> channel_destroy_loop P channel_elems (unat count) 0 s)"

section \<open>Call stack lifecycle\<close>

text \<open>
  The loop of \<^verbatim>\<open>grpc_call_stack_init\<close>. Each pass copies \<^verbatim>\<open>filter\<close> and
  \<^verbatim>\<open>channel_data\<close> from the channel element (a read of a slot that was never
  initialised is an invalid access), stores the cursor as \<^verbatim>\<open>call_data\<close>, calls
  \<^verbatim>\<open>init_call_elem\<close> and advances the cursor by the aligned
  \<^verbatim>\<open>sizeof_call_data\<close> of the filter stored in the call element.
  \<open>call_init_step\<close> is the three stores into \<^verbatim>\<open>call_elems[i]\<close> and the call of the
  hook, given the two values read from \<^verbatim>\<open>channel_elems[i]\<close>.
\<close>

definition call_init_step ::
  "'a::len platform \<Rightarrow> 'a word \<Rightarrow> 'a word \<Rightarrow> 'a word \<Rightarrow> nat \<Rightarrow> 'a word \<Rightarrow>
   'a grpc_channel_filter \<Rightarrow> 'a word \<Rightarrow> 'a state \<Rightarrow> 'a state"
where
  "call_init_step P call_elems transport_server_data initial_op i user_data f cd s =
     (let e = call_elems + of_nat i * sizeof_grpc_call_element P
      in s\<lparr>call_elem_filter := (call_elem_filter s)(e \<mapsto> f),
            call_elem_channel_data := (call_elem_channel_data s)(e \<mapsto> cd),
            call_elem_call_data := (call_elem_call_data s)(e \<mapsto> user_data),
            trace := trace s @ [Init_call_elem f e transport_server_data initial_op]\<rparr>)"

function call_init_loop ::
  "'a::len platform \<Rightarrow> 'a word \<Rightarrow> 'a word \<Rightarrow> nat \<Rightarrow> 'a word \<Rightarrow> 'a word \<Rightarrow>
   nat \<Rightarrow> 'a word \<Rightarrow> 'a state \<Rightarrow> ('a word, 'a state) result"
where
  "call_init_loop P channel_elems call_elems count transport_server_data initial_op i user_data s =
     (if i < count then
        (let ce = channel_elems + of_nat i * sizeof_grpc_channel_element P;
             e = call_elems + of_nat i * sizeof_grpc_call_element P
         in case channel_elem_filter s ce of
              None \<Rightarrow> Fail Invalid_access s
            | Some f \<Rightarrow>
                (case channel_elem_channel_data s ce of
                   None \<Rightarrow>
                     Fail Invalid_access (s\<lparr>call_elem_filter := (call_elem_filter s)(e \<mapsto> f)\<rparr>)
                 | Some cd \<Rightarrow>
                     call_init_loop P channel_elems call_elems count
                       transport_server_data initial_op (i + 1)
                       (user_data + ROUND_UP_TO_ALIGNMENT_SIZE P (sizeof_call_data f))
                       (call_init_step P call_elems transport_server_data initial_op
                          i user_data f cd s)))
      else Return user_data s)"
  by pat_completeness auto
termination
  by (relation "measure (\<lambda>(P, channel_elems, call_elems, count, transport_server_data,
        initial_op, i, rest). count - i)") auto

declare call_init_loop.simps [simp del]

text \<open>
  \<^verbatim>\<open>grpc_call_stack_init\<close> with the final value of its user-data cursor as the
  result; the C function returns nothing.
\<close>

definition call_stack_init_cursor ::
  "'a::len platform \<Rightarrow> 'a word \<Rightarrow> 'a word \<Rightarrow> 'a word \<Rightarrow> 'a word \<Rightarrow> 'a state \<Rightarrow>
   ('a word, 'a state) result"
where
  "call_stack_init_cursor P channel_stack transport_server_data initial_op call_stack s =
     (let channel_elems = CHANNEL_ELEMS_FROM_STACK P channel_stack
      in case channel_stack_count s channel_stack of
           None \<Rightarrow> Fail Invalid_access s
         | Some count \<Rightarrow>
             (let s1 = s\<lparr>call_stack_count := (call_stack_count s)(call_stack \<mapsto> count)\<rparr>;
                  call_elems = CALL_ELEMS_FROM_STACK P call_stack;
                  user_data = call_elems +
                    ROUND_UP_TO_ALIGNMENT_SIZE P (count * sizeof_grpc_call_element P)
              in call_init_loop P channel_elems call_elems (unat count)
                   transport_server_data initial_op 0 user_data s1))"

definition grpc_call_stack_init ::
  "'a::len platform \<Rightarrow> 'a word \<Rightarrow> 'a word \<Rightarrow> 'a word \<Rightarrow> 'a word \<Rightarrow> 'a state \<Rightarrow>
   (unit, 'a state) result"
where
  "grpc_call_stack_init P channel_stack transport_server_data initial_op call_stack s =
     (case call_stack_init_cursor P channel_stack transport_server_data initial_op call_stack s of
        Fail e s' \<Rightarrow> Fail e s'
      | Return user_data s' \<Rightarrow> Return () s')"

function call_destroy_loop ::
  "'a::len platform \<Rightarrow> 'a word \<Rightarrow> nat \<Rightarrow> nat \<Rightarrow> 'a state \<Rightarrow> (unit, 'a state) result"
where
  "call_destroy_loop P elems count i s =
     (if i < count then
        (let e = elems + of_nat i * sizeof_grpc_call_element P
         in case call_elem_filter s e of
              None \<Rightarrow> Fail Invalid_access s
            | Some f \<Rightarrow>
                call_destroy_loop P elems count (i + 1)
                  (s\<lparr>trace := trace s @ [Destroy_call_elem f e]\<rparr>))
      else Return () s)"
  by pat_completeness auto
termination
  by (relation "measure (\<lambda>(P, elems, count, i, s). count - i)") auto

declare call_destroy_loop.simps [simp del]

definition grpc_call_stack_destroy ::
  "'a::len platform \<Rightarrow> 'a word \<Rightarrow> 'a state \<Rightarrow> (unit, 'a state) result"
where
  "grpc_call_stack_destroy P stack s =
     (let elems = CALL_ELEMS_FROM_STACK P stack
      in case call_stack_count s stack of
           None \<Rightarrow> Fail Invalid_access s
         | Some count \<Rightarrow> call_destroy_loop P elems (unat count) 0 s)"

section \<open>Operation propagation\<close>

text \<open>
  \<^verbatim>\<open>elem + 1\<close> and \<^verbatim>\<open>elem + op->dir\<close> move the pointer by whole elements; the
  handler is the one of the filter stored in the slot reached.
\<close>

definition grpc_call_next_op ::
  "'a::len platform \<Rightarrow> 'a word \<Rightarrow> grpc_transport_op \<Rightarrow> 'a state \<Rightarrow> (unit, 'a state) result"
where
  "grpc_call_next_op P elem op s =
     (let next_elem = elem + 1 * sizeof_grpc_call_element P
      in case call_elem_filter s next_elem of
           None \<Rightarrow> Fail Invalid_access s
         | Some f \<Rightarrow> Return () (s\<lparr>trace := trace s @ [Start_transport_op f next_elem op]\<rparr>))"

definition grpc_channel_next_op ::
  "'a::len platform \<Rightarrow> 'a word \<Rightarrow> grpc_channel_op \<Rightarrow> 'a state \<Rightarrow> (unit, 'a state) result"
where
  "grpc_channel_next_op P elem op s =
     (let next_elem = elem + word_of_int (dir op) * sizeof_grpc_channel_element P
      in case channel_elem_filter s next_elem of
           None \<Rightarrow> Fail Invalid_access s
         | Some f \<Rightarrow> Return () (s\<lparr>trace := trace s @ [Channel_op f next_elem elem op]\<rparr>))"

section \<open>Convenience operations\<close>

definition grpc_call_element_send_cancel ::
  "'a::len platform \<Rightarrow> 'a word \<Rightarrow> 'a state \<Rightarrow> (unit, 'a state) result"
where
  "grpc_call_element_send_cancel P cur_elem s =
     (let op0 = \<lparr>cancel_with_status = 0, transport_op_fields = (\<lambda>_. 0)\<rparr>;
          op = op0\<lparr>cancel_with_status := GRPC_STATUS_CANCELLED P\<rparr>
      in grpc_call_next_op P cur_elem op s)"

definition grpc_call_element_recv_status ::
  "'a::len platform \<Rightarrow> 'a word \<Rightarrow> int \<Rightarrow> string \<Rightarrow> 'a state \<Rightarrow> (unit, 'a state) result"
where
  "grpc_call_element_recv_status P cur_elem status message s = Fail Aborted s"

section \<open>Alignment and the layout in memory\<close>

text \<open>
  The notions the properties below are stated with. A power of two is one of
  \<open>1, 2, 4, \<dots>\<close> that the word type holds; a multiple of the alignment is taken on
  the unsigned values.
\<close>

definition is_power_of_two :: "'a::len word \<Rightarrow> bool" where
  "is_power_of_two A = list_ex (\<lambda>k. A = 2 ^ k) [0..<LENGTH('a)]"

definition multiple_of_alignment :: "'a::len platform \<Rightarrow> 'a word \<Rightarrow> bool" where
  "multiple_of_alignment P x = (unat (GPR_MAX_ALIGNMENT P) dvd unat x)"

text \<open>
  The number of bytes of the two layouts described at the top of the source file
  (header, padding, element table, padding, per-filter memory with padding), counted
  in natural numbers, where nothing wraps around.
\<close>

definition round_up_nat :: "nat \<Rightarrow> nat \<Rightarrow> nat" where
  "round_up_nat a x = (x + a - 1) div a * a"

definition channel_stack_extent ::
  "'a::len platform \<Rightarrow> 'a grpc_channel_filter list \<Rightarrow> 'a word \<Rightarrow> nat"
where
  "channel_stack_extent P filters filter_count =
     round_up_nat (unat (GPR_MAX_ALIGNMENT P)) (unat (sizeof_grpc_channel_stack P)) +
     round_up_nat (unat (GPR_MAX_ALIGNMENT P))
       (unat filter_count * unat (sizeof_grpc_channel_element P)) +
     sum_list (map (\<lambda>f. round_up_nat (unat (GPR_MAX_ALIGNMENT P)) (unat (sizeof_channel_data f)))
       (take (unat filter_count) filters))"

definition call_stack_extent ::
  "'a::len platform \<Rightarrow> 'a grpc_channel_filter list \<Rightarrow> 'a word \<Rightarrow> nat"
where
  "call_stack_extent P filters filter_count =
     round_up_nat (unat (GPR_MAX_ALIGNMENT P)) (unat (sizeof_grpc_call_stack P)) +
     round_up_nat (unat (GPR_MAX_ALIGNMENT P))
       (unat filter_count * unat (sizeof_grpc_call_element P)) +
     sum_list (map (\<lambda>f. round_up_nat (unat (GPR_MAX_ALIGNMENT P)) (unat (sizeof_call_data f)))
       (take (unat filter_count) filters))"

text \<open>
  The caller allocates the memory of a stack. An allocated object lies inside the
  address space: its last byte has an address, and so has the byte after it.
\<close>

definition channel_stack_fits ::
  "'a::len platform \<Rightarrow> 'a grpc_channel_filter list \<Rightarrow> 'a word \<Rightarrow> 'a word \<Rightarrow> bool"
where
  "channel_stack_fits P filters filter_count stack =
     (unat stack + channel_stack_extent P filters filter_count < 2 ^ LENGTH('a))"

definition call_stack_fits ::
  "'a::len platform \<Rightarrow> 'a grpc_channel_filter list \<Rightarrow> 'a word \<Rightarrow> 'a word \<Rightarrow> bool"
where
  "call_stack_fits P filters filter_count call_stack =
     (unat call_stack + call_stack_extent P filters filter_count < 2 ^ LENGTH('a))"

section \<open>A concrete platform and filter list\<close>

text \<open>
  An LP64 platform: 16-byte alignment, a channel stack header of two \<^verbatim>\<open>size_t\<close>,
  a channel element of two pointers, a call stack header of one \<^verbatim>\<open>size_t\<close>, a call
  element of three pointers. The filter list is the one of the end-to-end scenario:
  channel-data sizes 8, 0, 16 and call-data sizes 4, 4, 0.
\<close>

definition platform_lp64 :: "64 platform" where
  "platform_lp64 =
     \<lparr>GPR_MAX_ALIGNMENT = 16, sizeof_grpc_channel_stack = 16,
      sizeof_grpc_channel_element = 16, sizeof_grpc_call_stack = 8,
      sizeof_grpc_call_element = 24, GRPC_STATUS_CANCELLED = 1\<rparr>"

definition scenario_filters :: "64 grpc_channel_filter list" where
  "scenario_filters =
     [\<lparr>sizeof_call_data = 4, sizeof_channel_data = 8, name = ''f0''\<rparr>,
      \<lparr>sizeof_call_data = 4, sizeof_channel_data = 0, name = ''f1''\<rparr>,
      \<lparr>sizeof_call_data = 0, sizeof_channel_data = 16, name = ''f2''\<rparr>]"

definition empty_state :: "64 state" where
  "empty_state =
     \<lparr>channel_stack_count = Map.empty, channel_stack_call_stack_size = Map.empty,
      channel_elem_filter = Map.empty, channel_elem_channel_data = Map.empty,
      call_stack_count = Map.empty, call_elem_filter = Map.empty,
      call_elem_channel_data = Map.empty, call_elem_call_data = Map.empty,
      trace = []\<rparr>"

text \<open>
  The scenario: the channel stack of the three filters is initialised at address 4096
  in the empty memory, then a call stack on it at address 8192.
\<close>

definition scenario_channel_state :: "64 state" where
  "scenario_channel_state =
     state_of (grpc_channel_stack_init platform_lp64 scenario_filters 3 7 9 4096 empty_state)"

definition scenario_call_state :: "64 state" where
  "scenario_call_state =
     state_of (grpc_call_stack_init platform_lp64 4096 5 6 8192 scenario_channel_state)"

section \<open>Rounding up to the alignment\<close>

lemma and_not_mask_push_drop: "(w :: 'a::len word) AND NOT (mask k) = push_bit k (drop_bit k w)"
  by (rule bit_word_eqI) (auto simp add: bit_simps)

lemma unat_and_not_mask: "unat ((w :: 'a::len word) AND NOT (mask k)) = unat w div 2 ^ k * 2 ^ k"
proof -
  have "w AND NOT (mask k) = w - take_bit k w"
    by (metis and_not_mask_push_drop bits_ident add_diff_cancel_right')
  moreover have "take_bit k w \<le> w"
    by (simp add: word_le_nat_alt unsigned_take_bit_eq take_bit_nat_less_eq_self)
  ultimately have "unat (w AND NOT (mask k)) = unat w - take_bit k (unat w)"
    by (simp add: unat_sub unsigned_take_bit_eq)
  then have "unat (w AND NOT (mask k)) = unat w - unat w mod 2 ^ k"
    by (simp add: take_bit_eq_mod)
  then show ?thesis
    by (simp add: minus_mod_eq_div_mult)
qed

lemma nat_and_pred_zero:
  "0 < (n::nat) \<Longrightarrow> n AND (n - 1) = 0 \<Longrightarrow> \<exists>k. n = 2 ^ k"
proof (induction n rule: less_induct)
  case (less n)
  show ?case
  proof (cases "even n")
    case True
    then obtain m where m: "n = 2 * m" by (auto elim: evenE)
    with less.prems have mpos: "0 < m" by simp
    have "n - 1 = 2 * (m - 1) + 1" using m mpos by simp
    then have "n AND (n - 1) = 2 * (m AND (m - 1))"
      using m by (subst and_nat_rec) simp
    with less.prems have "m AND (m - 1) = 0" by simp
    moreover have "m < n" using m mpos by simp
    ultimately obtain k where "m = 2 ^ k" using less.IH mpos by blast
    then have "n = 2 ^ Suc k" using m by simp
    then show ?thesis by blast
  next
    case False
    then obtain m where m: "n = 2 * m + 1" by (auto elim: oddE)
    then have "n AND (n - 1) = 2 * (m AND m)"
      by (subst and_nat_rec) simp
    with less.prems have "m = 0" by simp
    then have "n = 2 ^ 0" using m by simp
    then show ?thesis by blast
  qed
qed

lemma unat_pow2: "k < LENGTH('a) \<Longrightarrow> unat (2 ^ k :: 'a::len word) = 2 ^ k"
  by (rule of_nat_inverse) simp_all

lemma is_power_of_two_iff:
  "is_power_of_two (A :: 'a::len word) \<longleftrightarrow> (\<exists>k<LENGTH('a). A = 2 ^ k)"
  by (auto simp add: is_power_of_two_def list_ex_iff)

lemma word_and_pred_zero:
  fixes A :: "'a::len word"
  assumes "A \<noteq> 0" "A AND (A - 1) = 0"
  shows "is_power_of_two A"
proof -
  have "unat (A AND (A - 1)) = unat A AND (unat A - 1)"
    using assms(1) by (simp add: unsigned_and_eq unat_minus_one)
  then have "unat A AND (unat A - 1) = 0" using assms(2) by simp
  moreover have "0 < unat A" using assms(1) by (simp add: unat_gt_0)
  ultimately obtain k where k: "unat A = 2 ^ k" using nat_and_pred_zero by blast
  have "unat A < 2 ^ LENGTH('a)" by simp
  then have "k < LENGTH('a)" using k by simp
  moreover have "A = 2 ^ k"
  proof -
    have "A = word_of_nat (unat A)" by simp
    also have "\<dots> = 2 ^ k" by (simp add: k)
    finally show ?thesis .
  qed
  ultimately show ?thesis unfolding is_power_of_two_iff by blast
qed

lemma pow2_and_pred:
  "is_power_of_two (A :: 'a::len word) \<Longrightarrow> A AND (A - 1) = 0"
  unfolding is_power_of_two_iff
  by (auto intro!: bit_word_eqI simp add: bit_simps simp flip: mask_eq_exp_minus_1)

lemma round_up_pow2:
  "GPR_MAX_ALIGNMENT P = 2 ^ k \<Longrightarrow>
   ROUND_UP_TO_ALIGNMENT_SIZE P x = (x + mask k) AND NOT (mask k)"
  by (simp add: ROUND_UP_TO_ALIGNMENT_SIZE_def mask_eq_exp_minus_1 add_diff_eq)

lemma round_up_aligned:
  assumes "is_power_of_two (GPR_MAX_ALIGNMENT P)"
  shows "multiple_of_alignment P (ROUND_UP_TO_ALIGNMENT_SIZE P x)"
proof -
  from assms obtain k where k: "k < LENGTH('a)" "GPR_MAX_ALIGNMENT P = 2 ^ k"
    unfolding is_power_of_two_iff by blast
  show ?thesis
    by (simp add: multiple_of_alignment_def round_up_pow2 [OF k(2)] unat_and_not_mask
        k unat_pow2)
qed

lemma round_up_nat_props:
  assumes "0 < a"
  shows round_up_nat_dvd: "a dvd round_up_nat a x"
    and round_up_nat_ge: "x \<le> round_up_nat a x"
    and round_up_nat_least: "a dvd m \<Longrightarrow> x \<le> m \<Longrightarrow> round_up_nat a x \<le> m"
proof -
  show "a dvd round_up_nat a x" by (simp add: round_up_nat_def)
  have "x + a - 1 = (x + a - 1) div a * a + (x + a - 1) mod a" by simp
  moreover have "(x + a - 1) mod a \<le> a - 1"
    using assms mod_less_divisor [of a "x + a - 1"] by linarith
  ultimately have "x + a - 1 \<le> (x + a - 1) div a * a + (a - 1)" by linarith
  then show "x \<le> round_up_nat a x" using assms by (simp add: round_up_nat_def)
  assume "a dvd m" "x \<le> m"
  then obtain q where q: "m = q * a" by (auto simp add: dvd_def mult.commute)
  with \<open>x \<le> m\<close> assms have "x + a - 1 < (q + 1) * a" by simp
  then have "(x + a - 1) div a < q + 1" using assms
    by (simp add: less_mult_imp_div_less)
  then show "round_up_nat a x \<le> m" using q by (simp add: round_up_nat_def)
qed

lemma round_up_exact:
  fixes P :: "'a::len platform"
  assumes "is_power_of_two (GPR_MAX_ALIGNMENT P)"
    and "unat x + unat (GPR_MAX_ALIGNMENT P) \<le> 2 ^ LENGTH('a)"
  shows "unat (ROUND_UP_TO_ALIGNMENT_SIZE P x) = round_up_nat (unat (GPR_MAX_ALIGNMENT P)) (unat x)"
proof -
  from assms obtain k where k: "k < LENGTH('a)" "GPR_MAX_ALIGNMENT P = 2 ^ k"
    unfolding is_power_of_two_iff by blast
  have m: "unat (mask k :: 'a word) = 2 ^ k - 1"
    using k(1) by (simp add: mask_eq_exp_minus_1 unat_minus_one unat_pow2)
  have pos: "(0::nat) < 2 ^ k" by simp
  have le: "unat x + 2 ^ k \<le> 2 ^ LENGTH('a)"
    using assms(2) by (simp add: k unat_pow2)
  have "unat x + unat (mask k :: 'a word) < 2 ^ LENGTH('a)"
    unfolding m using le pos by linarith
  then have "unat (x + mask k) = unat x + (2 ^ k - 1)"
    using m by (simp add: unat_add_lem [THEN iffD1])
  also have "\<dots> = unat x + 2 ^ k - 1"
    using pos by linarith
  finally show ?thesis
    by (simp add: round_up_pow2 [OF k(2)] unat_and_not_mask k unat_pow2 round_up_nat_def)
qed

section \<open>The size of a channel stack\<close>

lemma aligned_zero: "multiple_of_alignment P 0"
  by (simp add: multiple_of_alignment_def)

lemma aligned_add:
  fixes P :: "'a::len platform"
  assumes "is_power_of_two (GPR_MAX_ALIGNMENT P)"
    and "multiple_of_alignment P x" "multiple_of_alignment P y"
  shows "multiple_of_alignment P (x + y)"
proof -
  from assms(1) obtain k where k: "k < LENGTH('a)" "GPR_MAX_ALIGNMENT P = 2 ^ k"
    unfolding is_power_of_two_iff by blast
  have "(2::nat) ^ k dvd 2 ^ LENGTH('a)"
    using k(1) by (simp add: le_imp_power_dvd)
  moreover have "(2::nat) ^ k dvd unat x + unat y"
    using assms(2,3) by (simp add: multiple_of_alignment_def k unat_pow2)
  ultimately have "(2::nat) ^ k dvd (unat x + unat y) mod 2 ^ LENGTH('a)"
    by (rule dvd_mod [rotated])
  then show ?thesis
    by (simp add: multiple_of_alignment_def k unat_pow2 unat_word_ariths)
qed

lemma stack_size_loop_eq:
  "filter_count \<le> length filters \<Longrightarrow> i \<le> filter_count \<Longrightarrow>
   stack_size_loop P filters filter_count i sz =
     Inr (sz + sum_list (map (\<lambda>f. ROUND_UP_TO_ALIGNMENT_SIZE P (sizeof_channel_data f))
                  (drop i (take filter_count filters))))"
proof (induction P filters filter_count i sz rule: stack_size_loop.induct)
  case (1 P filters filter_count i sz)
  show ?case
  proof (cases "i < filter_count")
    case True
    then have len: "i < length filters" using "1.prems" by simp
    have d: "drop i (take filter_count filters) =
             filters ! i # drop (Suc i) (take filter_count filters)"
      using True len by (simp add: Cons_nth_drop_Suc [symmetric])
    show ?thesis
      using True len "1.IH" "1.prems"
      by (subst stack_size_loop.simps) (simp add: d add.assoc)
  next
    case False
    then show ?thesis
      using "1.prems" by (subst stack_size_loop.simps) simp
  qed
qed

lemma grpc_channel_stack_size_eq:
  assumes "GPR_MAX_ALIGNMENT P AND (GPR_MAX_ALIGNMENT P - 1) = 0"
    and "unat filter_count \<le> length filters"
  shows "grpc_channel_stack_size P filters filter_count =
     Inr (ROUND_UP_TO_ALIGNMENT_SIZE P (sizeof_grpc_channel_stack P) +
          ROUND_UP_TO_ALIGNMENT_SIZE P (filter_count * sizeof_grpc_channel_element P) +
          sum_list (map (\<lambda>f. ROUND_UP_TO_ALIGNMENT_SIZE P (sizeof_channel_data f))
                  (take (unat filter_count) filters)))"
  using assms by (simp add: grpc_channel_stack_size_def stack_size_loop_eq)

lemma stack_size_loop_aligned:
  "stack_size_loop P filters filter_count i sz = Inr r \<Longrightarrow>
   is_power_of_two (GPR_MAX_ALIGNMENT P) \<Longrightarrow>
   multiple_of_alignment P sz \<Longrightarrow> multiple_of_alignment P r"
proof (induction P filters filter_count i sz rule: stack_size_loop.induct)
  case (1 P filters filter_count i sz)
  show ?case
  proof (cases "i < filter_count \<and> i < length filters")
    case True
    have a: "multiple_of_alignment P
            (sz + ROUND_UP_TO_ALIGNMENT_SIZE P (sizeof_channel_data (filters ! i)))"
      using "1.prems"(2,3) by (simp add: aligned_add round_up_aligned)
    have "stack_size_loop P filters filter_count (i + 1)
            (sz + ROUND_UP_TO_ALIGNMENT_SIZE P (sizeof_channel_data (filters ! i))) = Inr r"
      using "1.prems"(1) True by (subst (asm) stack_size_loop.simps) simp
    then show ?thesis
      using "1.IH" True a "1.prems"(2) by simp
  next
    case False
    then show ?thesis
      using "1.prems"(1,3) by (subst (asm) stack_size_loop.simps) (auto split: if_splits)
  qed
qed

lemma grpc_channel_stack_size_aligned:
  assumes "grpc_channel_stack_size P filters filter_count = Inr r"
    and "is_power_of_two (GPR_MAX_ALIGNMENT P)"
  shows "multiple_of_alignment P r"
proof -
  have "multiple_of_alignment P
     (ROUND_UP_TO_ALIGNMENT_SIZE P (sizeof_grpc_channel_stack P) +
      ROUND_UP_TO_ALIGNMENT_SIZE P (filter_count * sizeof_grpc_channel_element P))"
    using assms(2) by (simp add: aligned_add round_up_aligned)
  then show ?thesis
    using assms stack_size_loop_aligned
    by (auto simp add: grpc_channel_stack_size_def Let_def split: if_splits)
qed

lemma grpc_channel_stack_size_not_power_of_two:
  assumes "GPR_MAX_ALIGNMENT P \<noteq> 0" "\<not> is_power_of_two (GPR_MAX_ALIGNMENT P)"
  shows "grpc_channel_stack_size P filters filter_count = Inl Alignment_not_power_of_two"
  using assms word_and_pred_zero [of "GPR_MAX_ALIGNMENT P"]
  by (auto simp add: grpc_channel_stack_size_def Let_def)

section \<open>The loop of channel stack initialisation\<close>

lemma channel_init_step_simps [simp]:
  "channel_stack_count (channel_init_step P filters n args md elems i ud s) = channel_stack_count s"
  "channel_stack_call_stack_size (channel_init_step P filters n args md elems i ud s) =
     channel_stack_call_stack_size s"
  "call_stack_count (channel_init_step P filters n args md elems i ud s) = call_stack_count s"
  "call_elem_filter (channel_init_step P filters n args md elems i ud s) = call_elem_filter s"
  "call_elem_channel_data (channel_init_step P filters n args md elems i ud s) =
     call_elem_channel_data s"
  "call_elem_call_data (channel_init_step P filters n args md elems i ud s) = call_elem_call_data s"
  "trace (channel_init_step P filters n args md elems i ud s) =
     trace s @ [Init_channel_elem (filters ! i) (elems + of_nat i * sizeof_grpc_channel_element P)
                  args md (i = 0) (of_nat i = n - 1)]"
  "channel_elem_filter (channel_init_step P filters n args md elems i ud s) =
     (channel_elem_filter s)(elems + of_nat i * sizeof_grpc_channel_element P \<mapsto> filters ! i)"
  "channel_elem_channel_data (channel_init_step P filters n args md elems i ud s) =
     (channel_elem_channel_data s)(elems + of_nat i * sizeof_grpc_channel_element P \<mapsto> ud)"
  by (simp_all add: channel_init_step_def Let_def)

lemma channel_init_loop_unfold:
  "i < unat n \<Longrightarrow> i < length filters \<Longrightarrow>
   channel_init_loop P filters n args md elems i ud cs s =
   channel_init_loop P filters n args md elems (Suc i)
     (ud + ROUND_UP_TO_ALIGNMENT_SIZE P (sizeof_channel_data (filters ! i)))
     (cs + ROUND_UP_TO_ALIGNMENT_SIZE P (sizeof_call_data (filters ! i)))
     (channel_init_step P filters n args md elems i ud s)"
  "i < unat n \<Longrightarrow> \<not> i < length filters \<Longrightarrow>
   channel_init_loop P filters n args md elems i ud cs s = Fail Invalid_access s"
  "\<not> i < unat n \<Longrightarrow>
   channel_init_loop P filters n args md elems i ud cs s = Return (ud, cs) s"
  by (subst channel_init_loop.simps, simp)+

lemma channel_init_loop_bound:
  "channel_init_loop P filters n args md elems i ud cs s = Return r s' \<Longrightarrow>
   i \<le> length filters \<Longrightarrow> unat n \<le> length filters"
proof (induction P filters n args md elems i ud cs s rule: channel_init_loop.induct)
  case (1 P filters n args md elems i ud cs s)
  show ?case
  proof (cases "i < unat n")
    case True
    show ?thesis
    proof (cases "i < length filters")
      case len: True
      then show ?thesis
        using "1.IH" "1.prems" True by (simp add: channel_init_loop_unfold)
    next
      case False
      then show ?thesis
        using "1.prems" True by (simp add: channel_init_loop_unfold)
    qed
  next
    case False
    then show ?thesis using "1.prems" by simp
  qed
qed

lemma channel_init_loop_returns:
  "unat n \<le> length filters \<Longrightarrow>
   \<exists>r s'. channel_init_loop P filters n args md elems i ud cs s = Return r s'"
proof (induction P filters n args md elems i ud cs s rule: channel_init_loop.induct)
  case (1 P filters n args md elems i ud cs s)
  show ?case
  proof (cases "i < unat n")
    case True
    then have "i < length filters" using "1.prems" by simp
    then show ?thesis
      using "1.IH" "1.prems" True by (simp add: channel_init_loop_unfold)
  next
    case False
    then show ?thesis by (simp add: channel_init_loop_unfold)
  qed
qed

lemma channel_init_loop_value:
  "channel_init_loop P filters n args md elems i ud cs s = Return r s' \<Longrightarrow>
   r = (ud + sum_list (map (\<lambda>f. ROUND_UP_TO_ALIGNMENT_SIZE P (sizeof_channel_data f))
                (drop i (take (unat n) filters))),
        cs + sum_list (map (\<lambda>f. ROUND_UP_TO_ALIGNMENT_SIZE P (sizeof_call_data f))
                (drop i (take (unat n) filters))))"
proof (induction P filters n args md elems i ud cs s rule: channel_init_loop.induct)
  case (1 P filters n args md elems i ud cs s)
  show ?case
  proof (cases "i < unat n")
    case True
    show ?thesis
    proof (cases "i < length filters")
      case len: True
      have d: "drop i (take (unat n) filters) =
               filters ! i # drop (Suc i) (take (unat n) filters)"
        using True len by (simp add: Cons_nth_drop_Suc [symmetric])
      show ?thesis
        using "1.IH" "1.prems" True len
        by (simp add: channel_init_loop_unfold d add.assoc)
    next
      case False
      then show ?thesis
        using "1.prems" True by (simp add: channel_init_loop_unfold)
    qed
  next
    case False
    then show ?thesis using "1.prems" by (simp add: channel_init_loop_unfold)
  qed
qed

lemma channel_init_loop_trace:
  "channel_init_loop P filters n args md elems i ud cs s = Return r s' \<Longrightarrow>
   trace s' = trace s @
     map (\<lambda>j. Init_channel_elem (filters ! j) (elems + of_nat j * sizeof_grpc_channel_element P)
               args md (j = 0) (of_nat j = n - 1)) [i..<unat n]"
proof (induction P filters n args md elems i ud cs s rule: channel_init_loop.induct)
  case (1 P filters n args md elems i ud cs s)
  show ?case
  proof (cases "i < unat n")
    case True
    show ?thesis
    proof (cases "i < length filters")
      case len: True
      show ?thesis
        using "1.IH" "1.prems" True len
        by (simp add: channel_init_loop_unfold upt_conv_Cons)
    next
      case False
      then show ?thesis
        using "1.prems" True by (simp add: channel_init_loop_unfold)
    qed
  next
    case False
    then show ?thesis using "1.prems" by (simp add: channel_init_loop_unfold)
  qed
qed

lemma channel_init_loop_frame:
  "channel_init_loop P filters n args md elems i ud cs s = Return r s' \<Longrightarrow>
   channel_stack_count s' = channel_stack_count s \<and>
   channel_stack_call_stack_size s' = channel_stack_call_stack_size s \<and>
   call_stack_count s' = call_stack_count s \<and>
   call_elem_filter s' = call_elem_filter s \<and>
   call_elem_channel_data s' = call_elem_channel_data s \<and>
   call_elem_call_data s' = call_elem_call_data s"
proof (induction P filters n args md elems i ud cs s rule: channel_init_loop.induct)
  case (1 P filters n args md elems i ud cs s)
  show ?case
  proof (cases "i < unat n")
    case True
    show ?thesis
    proof (cases "i < length filters")
      case len: True
      show ?thesis
        using "1.IH" "1.prems" True len
        by (simp add: channel_init_loop_unfold)
    next
      case False
      then show ?thesis
        using "1.prems" True by (simp add: channel_init_loop_unfold)
    qed
  next
    case False
    then show ?thesis using "1.prems" by (simp add: channel_init_loop_unfold)
  qed
qed

lemma channel_init_loop_other:
  "channel_init_loop P filters n args md elems i ud cs s = Return r s' \<Longrightarrow>
   (\<And>j. i \<le> j \<Longrightarrow> j < unat n \<Longrightarrow> a \<noteq> elems + of_nat j * sizeof_grpc_channel_element P) \<Longrightarrow>
   channel_elem_filter s' a = channel_elem_filter s a \<and>
   channel_elem_channel_data s' a = channel_elem_channel_data s a"
proof (induction P filters n args md elems i ud cs s rule: channel_init_loop.induct)
  case (1 P filters n args md elems i ud cs s)
  show ?case
  proof (cases "i < unat n")
    case True
    show ?thesis
    proof (cases "i < length filters")
      case len: True
      have "a \<noteq> elems + of_nat i * sizeof_grpc_channel_element P"
        using "1.prems"(2) [of i] True by simp
      then show ?thesis
        using "1.IH" "1.prems" True len
        by (simp add: channel_init_loop_unfold)
    next
      case False
      then show ?thesis
        using "1.prems" True by (simp add: channel_init_loop_unfold)
    qed
  next
    case False
    then show ?thesis using "1.prems" by (simp add: channel_init_loop_unfold)
  qed
qed

lemma channel_init_loop_elem:
  "channel_init_loop P filters n args md elems i ud cs s = Return r s' \<Longrightarrow>
   i \<le> j \<Longrightarrow> j < unat n \<Longrightarrow>
   (\<And>k. j < k \<Longrightarrow> k < unat n \<Longrightarrow>
      elems + of_nat j * sizeof_grpc_channel_element P \<noteq>
      elems + of_nat k * sizeof_grpc_channel_element P) \<Longrightarrow>
   channel_elem_filter s' (elems + of_nat j * sizeof_grpc_channel_element P) = Some (filters ! j) \<and>
   channel_elem_channel_data s' (elems + of_nat j * sizeof_grpc_channel_element P) =
     Some (ud + sum_list (map (\<lambda>f. ROUND_UP_TO_ALIGNMENT_SIZE P (sizeof_channel_data f))
                   (drop i (take j filters))))"
proof (induction P filters n args md elems i ud cs s rule: channel_init_loop.induct)
  case (1 P filters n args md elems i ud cs s)
  have True: "i < unat n" using "1.prems" by simp
  show ?case
  proof (cases "i < length filters")
    case len: True
    note u = channel_init_loop_unfold(1) [OF True len]
    show ?thesis
    proof (cases "i = j")
      case True
      have "channel_init_loop P filters n args md elems (Suc i)
         (ud + ROUND_UP_TO_ALIGNMENT_SIZE P (sizeof_channel_data (filters ! i)))
         (cs + ROUND_UP_TO_ALIGNMENT_SIZE P (sizeof_call_data (filters ! i)))
         (channel_init_step P filters n args md elems i ud s) = Return r s'"
        using "1.prems"(1) u by simp
      from channel_init_loop_other [OF this, of "elems + of_nat j * sizeof_grpc_channel_element P"]
        "1.prems"(4) True
      show ?thesis by simp
    next
      case False
      then have lt: "Suc i \<le> j" using "1.prems"(2) by simp
      have d: "drop i (take j filters) = filters ! i # drop (Suc i) (take j filters)"
        using lt len by (simp add: Cons_nth_drop_Suc [symmetric])
      show ?thesis
        using "1.IH" [OF \<open>i < unat n\<close> len] "1.prems" lt u
        by (simp add: d add.assoc)
    qed
  next
    case False
    then show ?thesis
      using "1.prems" True by (simp add: channel_init_loop_unfold)
  qed
qed

lemma channel_init_loop_fail:
  "channel_init_loop P filters n args md elems i ud cs s = Fail e s' \<Longrightarrow> e = Invalid_access"
proof (induction P filters n args md elems i ud cs s rule: channel_init_loop.induct)
  case (1 P filters n args md elems i ud cs s)
  show ?case
  proof (cases "i < unat n")
    case True
    show ?thesis
    proof (cases "i < length filters")
      case len: True
      show ?thesis
        using "1.IH" "1.prems" True len
        by (simp add: channel_init_loop_unfold)
    next
      case False
      then show ?thesis
        using "1.prems" True by (simp add: channel_init_loop_unfold)
    qed
  next
    case False
    then show ?thesis using "1.prems" by (simp add: channel_init_loop_unfold)
  qed
qed

lemma stack_size_loop_fail:
  "stack_size_loop P filters filter_count i sz = Inl e \<Longrightarrow> e = Invalid_access"
proof (induction P filters filter_count i sz rule: stack_size_loop.induct)
  case (1 P filters filter_count i sz)
  then show ?case
    by (subst (asm) (2) stack_size_loop.simps) (auto split: if_splits)
qed

lemma grpc_channel_stack_size_Inr:
  assumes "grpc_channel_stack_size P filters filter_count = Inr sz"
  shows "GPR_MAX_ALIGNMENT P AND (GPR_MAX_ALIGNMENT P - 1) = 0"
  using assms by (auto simp add: grpc_channel_stack_size_def Let_def split: if_splits)

lemma channel_stack_init_cursor_value:
  assumes "channel_stack_init_cursor P filters n args md stack s = Return (ud, cs) s'"
  shows "unat n \<le> length filters"
    and "ud = stack + (ROUND_UP_TO_ALIGNMENT_SIZE P (sizeof_grpc_channel_stack P) +
          ROUND_UP_TO_ALIGNMENT_SIZE P (n * sizeof_grpc_channel_element P) +
          sum_list (map (\<lambda>f. ROUND_UP_TO_ALIGNMENT_SIZE P (sizeof_channel_data f))
                  (take (unat n) filters)))"
    and "cs = ROUND_UP_TO_ALIGNMENT_SIZE P (sizeof_grpc_call_stack P) +
          ROUND_UP_TO_ALIGNMENT_SIZE P (n * sizeof_grpc_call_element P) +
          sum_list (map (\<lambda>f. ROUND_UP_TO_ALIGNMENT_SIZE P (sizeof_call_data f))
                  (take (unat n) filters))"
proof -
  let ?s1 = "s\<lparr>channel_stack_count := (channel_stack_count s)(stack \<mapsto> n)\<rparr>"
  have l: "channel_init_loop P filters n args md (CHANNEL_ELEMS_FROM_STACK P stack) 0
       (CHANNEL_ELEMS_FROM_STACK P stack +
          ROUND_UP_TO_ALIGNMENT_SIZE P (n * sizeof_grpc_channel_element P))
       (ROUND_UP_TO_ALIGNMENT_SIZE P (sizeof_grpc_call_stack P) +
          ROUND_UP_TO_ALIGNMENT_SIZE P (n * sizeof_grpc_call_element P)) ?s1 = Return (ud, cs) s'"
    using assms by (simp add: channel_stack_init_cursor_def Let_def)
  from channel_init_loop_bound [OF l] show "unat n \<le> length filters" by simp
  from channel_init_loop_value [OF l]
  show "ud = stack + (ROUND_UP_TO_ALIGNMENT_SIZE P (sizeof_grpc_channel_stack P) +
          ROUND_UP_TO_ALIGNMENT_SIZE P (n * sizeof_grpc_channel_element P) +
          sum_list (map (\<lambda>f. ROUND_UP_TO_ALIGNMENT_SIZE P (sizeof_channel_data f))
                  (take (unat n) filters)))"
    and "cs = ROUND_UP_TO_ALIGNMENT_SIZE P (sizeof_grpc_call_stack P) +
          ROUND_UP_TO_ALIGNMENT_SIZE P (n * sizeof_grpc_call_element P) +
          sum_list (map (\<lambda>f. ROUND_UP_TO_ALIGNMENT_SIZE P (sizeof_call_data f))
                  (take (unat n) filters))"
    by (simp_all add: CHANNEL_ELEMS_FROM_STACK_def add.assoc)
qed

lemma channel_stack_init_cursor_returns:
  assumes "unat n \<le> length filters"
  shows "\<exists>ud cs s'. channel_stack_init_cursor P filters n args md stack s = Return (ud, cs) s'"
  using channel_init_loop_returns [OF assms]
  by (simp add: channel_stack_init_cursor_def Let_def)

lemma cursor_matches_size:
  assumes "channel_stack_init_cursor P filters n args md stack s = Return (ud, cs) s'"
    and "grpc_channel_stack_size P filters n = Inr sz"
  shows "ud - stack = sz"
  using channel_stack_init_cursor_value(1,2) [OF assms(1)] assms(2)
    grpc_channel_stack_size_Inr [OF assms(2)]
  by (simp add: grpc_channel_stack_size_eq)

section \<open>Addresses without wrap-around\<close>

lemma power_of_two_unat_pos:
  "is_power_of_two A \<Longrightarrow> 0 < unat A"
  by (auto simp add: is_power_of_two_iff unat_pow2)

lemma round_up_exact_lt:
  fixes P :: "'a::len platform"
  assumes p: "is_power_of_two (GPR_MAX_ALIGNMENT P)"
    and lt: "round_up_nat (unat (GPR_MAX_ALIGNMENT P)) (unat x) < 2 ^ LENGTH('a)"
  shows "unat (ROUND_UP_TO_ALIGNMENT_SIZE P x) = round_up_nat (unat (GPR_MAX_ALIGNMENT P)) (unat x)"
proof -
  let ?a = "unat (GPR_MAX_ALIGNMENT P)"
  let ?r = "round_up_nat ?a (unat x)"
  from p obtain k where k: "k < LENGTH('a)" "GPR_MAX_ALIGNMENT P = 2 ^ k"
    unfolding is_power_of_two_iff by blast
  have a: "?a = 2 ^ k" using k by (simp add: unat_pow2)
  have pos: "0 < ?a" using p by (rule power_of_two_unat_pos)
  have "?a dvd 2 ^ LENGTH('a)"
    unfolding a using k(1) by (simp add: le_imp_power_dvd)
  moreover have "?a dvd ?r" using pos by (rule round_up_nat_dvd)
  ultimately have "?a dvd 2 ^ LENGTH('a) - ?r" by (rule dvd_diff_nat)
  moreover have "0 < 2 ^ LENGTH('a) - ?r" using lt by simp
  ultimately have "?a \<le> 2 ^ LENGTH('a) - ?r" by (rule dvd_imp_le)
  moreover have "unat x \<le> ?r" using pos by (rule round_up_nat_ge)
  ultimately have "unat x + ?a \<le> 2 ^ LENGTH('a)" using lt by linarith
  with p show ?thesis by (rule round_up_exact)
qed

lemma unat_add_exact:
  fixes x y :: "'a::len word"
  shows "unat x + unat y < 2 ^ LENGTH('a) \<Longrightarrow> unat (x + y) = unat x + unat y"
  by (simp add: unat_add_lem [THEN iffD1])

lemma unat_of_nat_mult_exact:
  fixes E :: "'a::len word"
  assumes "i * unat E < 2 ^ LENGTH('a)" "i < 2 ^ LENGTH('a)"
  shows "unat (of_nat i * E) = i * unat E"
proof -
  have "unat (of_nat i :: 'a word) = i"
    using assms(2) by (simp add: unat_of_nat)
  then show ?thesis
    using assms(1) unat_mult_lem [of "of_nat i" E] by simp
qed

lemma sum_round_exact:
  fixes P :: "'a::len platform"
  assumes p: "is_power_of_two (GPR_MAX_ALIGNMENT P)"
  shows "sum_list (map (\<lambda>f. round_up_nat (unat (GPR_MAX_ALIGNMENT P)) (unat (g f))) fs)
           < 2 ^ LENGTH('a) \<Longrightarrow>
     unat (sum_list (map (\<lambda>f. ROUND_UP_TO_ALIGNMENT_SIZE P (g f)) fs)) =
     sum_list (map (\<lambda>f. round_up_nat (unat (GPR_MAX_ALIGNMENT P)) (unat (g f))) fs)"
proof (induction fs)
  case Nil
  show ?case by simp
next
  case (Cons f fs)
  let ?a = "unat (GPR_MAX_ALIGNMENT P)"
  have lt: "round_up_nat ?a (unat (g f)) +
      sum_list (map (\<lambda>f. round_up_nat ?a (unat (g f))) fs) < 2 ^ LENGTH('a)"
    using Cons.prems by simp
  then have "round_up_nat ?a (unat (g f)) < 2 ^ LENGTH('a)" by linarith
  then have e: "unat (ROUND_UP_TO_ALIGNMENT_SIZE P (g f)) = round_up_nat ?a (unat (g f))"
    using p by (simp add: round_up_exact_lt)
  have r: "unat (sum_list (map (\<lambda>f. ROUND_UP_TO_ALIGNMENT_SIZE P (g f)) fs)) =
      sum_list (map (\<lambda>f. round_up_nat ?a (unat (g f))) fs)"
    using Cons.IH lt by simp
  show ?case
    using lt by (simp add: unat_add_exact e r)
qed

lemma sum_list_take_le:
  fixes h :: "'b \<Rightarrow> nat"
  shows "sum_list (map h (take j xs)) \<le> sum_list (map h xs)"
proof -
  have "sum_list (map h xs) = sum_list (map h (take j xs)) + sum_list (map h (drop j xs))"
    by (metis append_take_drop_id map_append sum_list_append)
  then show ?thesis by simp
qed

text \<open>
  A region laid out as header, element table and per-filter memory that lies inside
  the address space: the addresses the code computes are the ones counted without
  wrap-around.
\<close>

lemma layout_exact:
  fixes P :: "'a::len platform" and base H E n :: "'a word"
  assumes p: "is_power_of_two (GPR_MAX_ALIGNMENT P)"
    and fits: "unat base + (round_up_nat (unat (GPR_MAX_ALIGNMENT P)) (unat H) +
        round_up_nat (unat (GPR_MAX_ALIGNMENT P)) (unat n * unat E) +
        sum_list (map (\<lambda>f. round_up_nat (unat (GPR_MAX_ALIGNMENT P)) (unat (g f))) fs))
        < 2 ^ LENGTH('a)"
  shows layout_elem: "i \<le> unat n \<Longrightarrow>
      unat (base + ROUND_UP_TO_ALIGNMENT_SIZE P H + of_nat i * E) =
      unat base + round_up_nat (unat (GPR_MAX_ALIGNMENT P)) (unat H) + i * unat E"
    and layout_data:
      "unat (base + ROUND_UP_TO_ALIGNMENT_SIZE P H + ROUND_UP_TO_ALIGNMENT_SIZE P (n * E) +
             sum_list (map (\<lambda>f. ROUND_UP_TO_ALIGNMENT_SIZE P (g f)) (take j fs))) =
       unat base + round_up_nat (unat (GPR_MAX_ALIGNMENT P)) (unat H) +
       round_up_nat (unat (GPR_MAX_ALIGNMENT P)) (unat n * unat E) +
       sum_list (map (\<lambda>f. round_up_nat (unat (GPR_MAX_ALIGNMENT P)) (unat (g f))) (take j fs))"
proof -
  let ?a = "unat (GPR_MAX_ALIGNMENT P)"
  let ?h = "round_up_nat ?a (unat H)"
  let ?t = "round_up_nat ?a (unat n * unat E)"
  let ?d = "\<lambda>xs. sum_list (map (\<lambda>f. round_up_nat ?a (unat (g f))) xs)"
  have pos: "0 < ?a" using p by (rule power_of_two_unat_pos)
  have h: "unat (ROUND_UP_TO_ALIGNMENT_SIZE P H) = ?h"
    using p fits by (intro round_up_exact_lt) simp_all
  have bh: "unat (base + ROUND_UP_TO_ALIGNMENT_SIZE P H) = unat base + ?h"
    using fits by (simp add: unat_add_exact h)
  have nE: "unat n * unat E \<le> ?t" using pos by (rule round_up_nat_ge)
  then have nE_lt: "unat n * unat E < 2 ^ LENGTH('a)" using fits by linarith
  then have m: "unat (n * E) = unat n * unat E"
    by (simp add: unat_mult_lem [THEN iffD1])
  have t: "unat (ROUND_UP_TO_ALIGNMENT_SIZE P (n * E)) = ?t"
    using p fits by (intro round_up_exact_lt [THEN trans]) (simp_all add: m)
  have bht: "unat (base + ROUND_UP_TO_ALIGNMENT_SIZE P H + ROUND_UP_TO_ALIGNMENT_SIZE P (n * E)) =
      unat base + ?h + ?t"
    using fits by (simp add: unat_add_exact bh t)
  have dj: "?d (take j fs) \<le> ?d fs" by (rule sum_list_take_le)
  then have "unat (sum_list (map (\<lambda>f. ROUND_UP_TO_ALIGNMENT_SIZE P (g f)) (take j fs))) =
      ?d (take j fs)"
    using p fits by (intro sum_round_exact) simp_all
  then show "unat (base + ROUND_UP_TO_ALIGNMENT_SIZE P H + ROUND_UP_TO_ALIGNMENT_SIZE P (n * E) +
             sum_list (map (\<lambda>f. ROUND_UP_TO_ALIGNMENT_SIZE P (g f)) (take j fs))) =
       unat base + ?h + ?t + ?d (take j fs)"
    using fits dj by (simp add: unat_add_exact bht)
  assume i: "i \<le> unat n"
  then have "i * unat E \<le> unat n * unat E" by (rule mult_le_mono1)
  then have iE: "i * unat E \<le> ?t" using nE by linarith
  have "unat n < 2 ^ LENGTH('a)" by simp
  then have "i < 2 ^ LENGTH('a)" using i by linarith
  then have "unat (of_nat i * E) = i * unat E"
    using iE fits by (intro unat_of_nat_mult_exact) simp_all
  then show "unat (base + ROUND_UP_TO_ALIGNMENT_SIZE P H + of_nat i * E) =
      unat base + ?h + i * unat E"
    using fits iE by (simp add: unat_add_exact bh)
qed

section \<open>What channel stack initialisation leaves behind\<close>

lemma round_up_zero_alignment:
  "GPR_MAX_ALIGNMENT P = 0 \<Longrightarrow> ROUND_UP_TO_ALIGNMENT_SIZE P x = 0"
  by (simp add: ROUND_UP_TO_ALIGNMENT_SIZE_def)

lemma channel_stack_init_Return:
  assumes "grpc_channel_stack_init P filters n args md stack s = Return () s1"
  obtains ud cs s' where
    "channel_stack_init_cursor P filters n args md stack s = Return (ud, cs) s'"
    "stack < ud"
    "grpc_channel_stack_size P filters n = Inr (ud - stack)"
    "s1 = s'\<lparr>channel_stack_call_stack_size :=
              (channel_stack_call_stack_size s')(stack \<mapsto> cs)\<rparr>"
proof (cases "channel_stack_init_cursor P filters n args md stack s")
  case (Fail e s2)
  with assms show ?thesis by (simp add: grpc_channel_stack_init_def)
next
  case (Return r s')
  obtain ud cs where r: "r = (ud, cs)" by (cases r)
  show ?thesis
  proof (cases "grpc_channel_stack_size P filters n")
    case (Inl e)
    with assms Return r show ?thesis
      by (simp add: grpc_channel_stack_init_def split: if_splits)
  next
    case (Inr sz)
    with assms Return r that [of ud cs s'] show ?thesis
      by (simp add: grpc_channel_stack_init_def split: if_splits)
  qed
qed

lemma channel_stack_init_power_of_two:
  assumes "grpc_channel_stack_init P filters n args md stack s = Return () s1"
  shows "is_power_of_two (GPR_MAX_ALIGNMENT P)"
proof -
  from assms obtain ud cs s' where
    c: "channel_stack_init_cursor P filters n args md stack s = Return (ud, cs) s'"
    and lt: "stack < ud"
    and sz: "grpc_channel_stack_size P filters n = Inr (ud - stack)"
    by (rule channel_stack_init_Return)
  have "GPR_MAX_ALIGNMENT P \<noteq> 0"
  proof
    assume z: "GPR_MAX_ALIGNMENT P = 0"
    have "ud = stack"
      using channel_stack_init_cursor_value(2) [OF c]
      by (simp add: round_up_zero_alignment [OF z])
    with lt show False by simp
  qed
  then show ?thesis
    using grpc_channel_stack_size_Inr [OF sz] by (rule word_and_pred_zero)
qed

lemma channel_elems_distinct:
  fixes P :: "'a::len platform"
  assumes p: "is_power_of_two (GPR_MAX_ALIGNMENT P)"
    and fits: "channel_stack_fits P filters n stack"
    and E: "sizeof_grpc_channel_element P \<noteq> 0"
    and jk: "j < k" "k \<le> unat n"
  shows "unat (CHANNEL_ELEMS_FROM_STACK P stack + of_nat j * sizeof_grpc_channel_element P) <
         unat (CHANNEL_ELEMS_FROM_STACK P stack + of_nat k * sizeof_grpc_channel_element P)"
proof -
  have f: "unat stack +
      (round_up_nat (unat (GPR_MAX_ALIGNMENT P)) (unat (sizeof_grpc_channel_stack P)) +
       round_up_nat (unat (GPR_MAX_ALIGNMENT P)) (unat n * unat (sizeof_grpc_channel_element P)) +
       sum_list (map (\<lambda>f. round_up_nat (unat (GPR_MAX_ALIGNMENT P)) (unat (sizeof_channel_data f)))
         (take (unat n) filters))) < 2 ^ LENGTH('a)"
    using fits by (simp add: channel_stack_fits_def channel_stack_extent_def)
  have "0 < unat (sizeof_grpc_channel_element P)" using E by (simp add: unat_gt_0)
  then have "j * unat (sizeof_grpc_channel_element P) < k * unat (sizeof_grpc_channel_element P)"
    using jk(1) by simp
  then show ?thesis
    using jk layout_elem [OF p f, of j] layout_elem [OF p f, of k]
    by (simp add: CHANNEL_ELEMS_FROM_STACK_def)
qed

lemma channel_stack_init_post:
  fixes P :: "'a::len platform"
  assumes init: "grpc_channel_stack_init P filters n args md stack s = Return () s1"
    and fits: "channel_stack_fits P filters n stack"
    and E: "sizeof_grpc_channel_element P \<noteq> 0"
  shows init_len: "unat n \<le> length filters"
    and init_count: "channel_stack_count s1 = (channel_stack_count s)(stack \<mapsto> n)"
    and init_call_stack_size:
      "channel_stack_call_stack_size s1 = (channel_stack_call_stack_size s)(stack \<mapsto>
         ROUND_UP_TO_ALIGNMENT_SIZE P (sizeof_grpc_call_stack P) +
         ROUND_UP_TO_ALIGNMENT_SIZE P (n * sizeof_grpc_call_element P) +
         sum_list (map (\<lambda>f. ROUND_UP_TO_ALIGNMENT_SIZE P (sizeof_call_data f))
                 (take (unat n) filters)))"
    and init_elem: "i < unat n \<Longrightarrow>
        channel_elem_filter s1 (grpc_channel_stack_element P stack (of_nat i)) =
          Some (filters ! i) \<and>
        channel_elem_channel_data s1 (grpc_channel_stack_element P stack (of_nat i)) =
          Some (CHANNEL_ELEMS_FROM_STACK P stack +
                ROUND_UP_TO_ALIGNMENT_SIZE P (n * sizeof_grpc_channel_element P) +
                sum_list (map (\<lambda>f. ROUND_UP_TO_ALIGNMENT_SIZE P (sizeof_channel_data f))
                        (take i filters)))"
    and init_trace: "trace s1 = trace s @
        map (\<lambda>j. Init_channel_elem (filters ! j) (grpc_channel_stack_element P stack (of_nat j))
                  args md (j = 0) (of_nat j = n - 1)) [0..<unat n]"
    and init_frame: "call_stack_count s1 = call_stack_count s"
        "call_elem_filter s1 = call_elem_filter s"
        "call_elem_channel_data s1 = call_elem_channel_data s"
        "call_elem_call_data s1 = call_elem_call_data s"
proof -
  from init obtain ud cs s' where
    c: "channel_stack_init_cursor P filters n args md stack s = Return (ud, cs) s'"
    and s1: "s1 = s'\<lparr>channel_stack_call_stack_size :=
              (channel_stack_call_stack_size s')(stack \<mapsto> cs)\<rparr>"
    by (rule channel_stack_init_Return)
  let ?s0 = "s\<lparr>channel_stack_count := (channel_stack_count s)(stack \<mapsto> n)\<rparr>"
  let ?elems = "CHANNEL_ELEMS_FROM_STACK P stack"
  have l: "channel_init_loop P filters n args md ?elems 0
       (?elems + ROUND_UP_TO_ALIGNMENT_SIZE P (n * sizeof_grpc_channel_element P))
       (ROUND_UP_TO_ALIGNMENT_SIZE P (sizeof_grpc_call_stack P) +
          ROUND_UP_TO_ALIGNMENT_SIZE P (n * sizeof_grpc_call_element P)) ?s0 = Return (ud, cs) s'"
    using c by (simp add: channel_stack_init_cursor_def Let_def)
  note p = channel_stack_init_power_of_two [OF init]
  show "unat n \<le> length filters" by (rule channel_stack_init_cursor_value(1) [OF c])
  show "channel_stack_count s1 = (channel_stack_count s)(stack \<mapsto> n)"
    using channel_init_loop_frame [OF l] by (simp add: s1)
  show "channel_stack_call_stack_size s1 = (channel_stack_call_stack_size s)(stack \<mapsto>
         ROUND_UP_TO_ALIGNMENT_SIZE P (sizeof_grpc_call_stack P) +
         ROUND_UP_TO_ALIGNMENT_SIZE P (n * sizeof_grpc_call_element P) +
         sum_list (map (\<lambda>f. ROUND_UP_TO_ALIGNMENT_SIZE P (sizeof_call_data f))
                 (take (unat n) filters)))"
    using channel_init_loop_frame [OF l] channel_stack_init_cursor_value(3) [OF c]
    by (simp add: s1)
  show "trace s1 = trace s @
        map (\<lambda>j. Init_channel_elem (filters ! j) (grpc_channel_stack_element P stack (of_nat j))
                  args md (j = 0) (of_nat j = n - 1)) [0..<unat n]"
    using channel_init_loop_trace [OF l]
    by (simp add: s1 grpc_channel_stack_element_def)
  show "call_stack_count s1 = call_stack_count s"
      "call_elem_filter s1 = call_elem_filter s"
      "call_elem_channel_data s1 = call_elem_channel_data s"
      "call_elem_call_data s1 = call_elem_call_data s"
    using channel_init_loop_frame [OF l] by (simp_all add: s1)
  assume i: "i < unat n"
  have "?elems + of_nat i * sizeof_grpc_channel_element P \<noteq>
        ?elems + of_nat k * sizeof_grpc_channel_element P" if "i < k" "k < unat n" for k
    using channel_elems_distinct [OF p fits E, of i k] that by auto
  from channel_init_loop_elem [OF l _ i this]
  show "channel_elem_filter s1 (grpc_channel_stack_element P stack (of_nat i)) =
          Some (filters ! i) \<and>
        channel_elem_channel_data s1 (grpc_channel_stack_element P stack (of_nat i)) =
          Some (?elems +
                ROUND_UP_TO_ALIGNMENT_SIZE P (n * sizeof_grpc_channel_element P) +
                sum_list (map (\<lambda>f. ROUND_UP_TO_ALIGNMENT_SIZE P (sizeof_channel_data f))
                        (take i filters)))"
    by (simp add: s1 grpc_channel_stack_element_def)
qed

lemma channel_stack_init_returns:
  fixes P :: "'a::len platform"
  assumes len: "unat n \<le> length filters"
    and p: "is_power_of_two (GPR_MAX_ALIGNMENT P)"
    and fits: "channel_stack_fits P filters n stack"
    and H: "sizeof_grpc_channel_stack P \<noteq> 0"
  shows "\<exists>s1. grpc_channel_stack_init P filters n args md stack s = Return () s1"
proof -
  from len obtain ud cs s' where
    c: "channel_stack_init_cursor P filters n args md stack s = Return (ud, cs) s'"
    using channel_stack_init_cursor_returns by blast
  let ?a = "unat (GPR_MAX_ALIGNMENT P)"
  let ?fs = "take (unat n) filters"
  have f: "unat stack +
      (round_up_nat ?a (unat (sizeof_grpc_channel_stack P)) +
       round_up_nat ?a (unat n * unat (sizeof_grpc_channel_element P)) +
       sum_list (map (\<lambda>f. round_up_nat ?a (unat (sizeof_channel_data f))) ?fs)) < 2 ^ LENGTH('a)"
    using fits by (simp add: channel_stack_fits_def channel_stack_extent_def)
  have "ud = stack + ROUND_UP_TO_ALIGNMENT_SIZE P (sizeof_grpc_channel_stack P) +
          ROUND_UP_TO_ALIGNMENT_SIZE P (n * sizeof_grpc_channel_element P) +
          sum_list (map (\<lambda>f. ROUND_UP_TO_ALIGNMENT_SIZE P (sizeof_channel_data f)) ?fs)"
    using channel_stack_init_cursor_value(2) [OF c] by (simp add: add.assoc)
  then have u: "unat ud = unat stack + round_up_nat ?a (unat (sizeof_grpc_channel_stack P)) +
       round_up_nat ?a (unat n * unat (sizeof_grpc_channel_element P)) +
       sum_list (map (\<lambda>f. round_up_nat ?a (unat (sizeof_channel_data f))) ?fs)"
    using layout_data [OF p f, of "unat n"] by simp
  have "0 < unat (sizeof_grpc_channel_stack P)" using H by (simp add: unat_gt_0)
  moreover have "unat (sizeof_grpc_channel_stack P) \<le>
      round_up_nat ?a (unat (sizeof_grpc_channel_stack P))"
    using power_of_two_unat_pos [OF p] by (rule round_up_nat_ge)
  ultimately have "unat stack < unat ud" using u by linarith
  then have lt: "stack < ud" by (simp add: word_less_nat_alt)
  have "grpc_channel_stack_size P filters n = Inr (ud - stack)"
    using channel_stack_init_cursor_value(2) [OF c] len p
    by (simp add: grpc_channel_stack_size_eq pow2_and_pred)
  with c lt show ?thesis
    by (simp add: grpc_channel_stack_init_def)
qed

section \<open>Small facts on the concrete platform\<close>

lemma round_up_0: "ROUND_UP_TO_ALIGNMENT_SIZE P 0 = 0"
  by (simp add: ROUND_UP_TO_ALIGNMENT_SIZE_def)

lemma platform_lp64_power_of_two: "is_power_of_two (GPR_MAX_ALIGNMENT platform_lp64)"
  unfolding is_power_of_two_iff by (intro exI [of _ 4]) (simp add: platform_lp64_def)

section \<open>The loop of call stack initialisation\<close>

lemma call_init_step_simps [simp]:
  "channel_stack_count (call_init_step P call_elems tsd iop i ud f cd s) = channel_stack_count s"
  "channel_stack_call_stack_size (call_init_step P call_elems tsd iop i ud f cd s) =
     channel_stack_call_stack_size s"
  "channel_elem_filter (call_init_step P call_elems tsd iop i ud f cd s) = channel_elem_filter s"
  "channel_elem_channel_data (call_init_step P call_elems tsd iop i ud f cd s) =
     channel_elem_channel_data s"
  "call_stack_count (call_init_step P call_elems tsd iop i ud f cd s) = call_stack_count s"
  "trace (call_init_step P call_elems tsd iop i ud f cd s) =
     trace s @ [Init_call_elem f (call_elems + of_nat i * sizeof_grpc_call_element P) tsd iop]"
  "call_elem_filter (call_init_step P call_elems tsd iop i ud f cd s) =
     (call_elem_filter s)(call_elems + of_nat i * sizeof_grpc_call_element P \<mapsto> f)"
  "call_elem_channel_data (call_init_step P call_elems tsd iop i ud f cd s) =
     (call_elem_channel_data s)(call_elems + of_nat i * sizeof_grpc_call_element P \<mapsto> cd)"
  "call_elem_call_data (call_init_step P call_elems tsd iop i ud f cd s) =
     (call_elem_call_data s)(call_elems + of_nat i * sizeof_grpc_call_element P \<mapsto> ud)"
  by (simp_all add: call_init_step_def Let_def)

lemma call_init_loop_unfold:
  "i < count \<Longrightarrow>
   channel_elem_filter s (channel_elems + of_nat i * sizeof_grpc_channel_element P) = Some f \<Longrightarrow>
   channel_elem_channel_data s (channel_elems + of_nat i * sizeof_grpc_channel_element P) = Some cd \<Longrightarrow>
   call_init_loop P channel_elems call_elems count tsd iop i ud s =
   call_init_loop P channel_elems call_elems count tsd iop (Suc i)
     (ud + ROUND_UP_TO_ALIGNMENT_SIZE P (sizeof_call_data f))
     (call_init_step P call_elems tsd iop i ud f cd s)"
  "\<not> i < count \<Longrightarrow>
   call_init_loop P channel_elems call_elems count tsd iop i ud s = Return ud s"
  "i < count \<Longrightarrow>
   channel_elem_filter s (channel_elems + of_nat i * sizeof_grpc_channel_element P) = None \<Longrightarrow>
   call_init_loop P channel_elems call_elems count tsd iop i ud s = Fail Invalid_access s"
  by (subst call_init_loop.simps, simp add: Let_def)+

lemma call_init_loop_post:
  fixes P :: "'a::len platform"
  assumes chan: "\<And>j. j < count \<Longrightarrow>
      channel_elem_filter s (channel_elems + of_nat j * sizeof_grpc_channel_element P) =
        Some (filters ! j) \<and>
      channel_elem_channel_data s (channel_elems + of_nat j * sizeof_grpc_channel_element P) =
        Some (cds j)"
    and len: "count \<le> length filters"
    and i: "i \<le> count"
  shows "\<exists>s'. call_init_loop P channel_elems call_elems count tsd iop i ud s =
           Return (ud + sum_list (map (\<lambda>f. ROUND_UP_TO_ALIGNMENT_SIZE P (sizeof_call_data f))
                           (drop i (take count filters)))) s' \<and>
         trace s' = trace s @
           map (\<lambda>j. Init_call_elem (filters ! j)
                     (call_elems + of_nat j * sizeof_grpc_call_element P) tsd iop) [i..<count] \<and>
         channel_stack_count s' = channel_stack_count s \<and>
         channel_stack_call_stack_size s' = channel_stack_call_stack_size s \<and>
         channel_elem_filter s' = channel_elem_filter s \<and>
         channel_elem_channel_data s' = channel_elem_channel_data s \<and>
         call_stack_count s' = call_stack_count s \<and>
         (\<forall>a. (\<forall>j. i \<le> j \<and> j < count \<longrightarrow>
                  a \<noteq> call_elems + of_nat j * sizeof_grpc_call_element P) \<longrightarrow>
              call_elem_filter s' a = call_elem_filter s a \<and>
              call_elem_channel_data s' a = call_elem_channel_data s a \<and>
              call_elem_call_data s' a = call_elem_call_data s a) \<and>
         (\<forall>j. i \<le> j \<and> j < count \<and>
              (\<forall>k. j < k \<and> k < count \<longrightarrow>
                 call_elems + of_nat j * sizeof_grpc_call_element P \<noteq>
                 call_elems + of_nat k * sizeof_grpc_call_element P) \<longrightarrow>
              call_elem_filter s' (call_elems + of_nat j * sizeof_grpc_call_element P) =
                Some (filters ! j) \<and>
              call_elem_channel_data s' (call_elems + of_nat j * sizeof_grpc_call_element P) =
                Some (cds j) \<and>
              call_elem_call_data s' (call_elems + of_nat j * sizeof_grpc_call_element P) =
                Some (ud + sum_list (map (\<lambda>f. ROUND_UP_TO_ALIGNMENT_SIZE P (sizeof_call_data f))
                              (drop i (take j filters)))))"
  using chan i
proof (induction "count - i" arbitrary: i ud s)
  case 0
  then have "\<not> i < count" by simp
  moreover have "i = count" using 0 by simp
  ultimately show ?case by (auto simp add: call_init_loop_unfold)
next
  case (Suc m)
  let ?e = "\<lambda>j. call_elems + of_nat j * sizeof_grpc_call_element P"
  let ?R = "\<lambda>f. ROUND_UP_TO_ALIGNMENT_SIZE P (sizeof_call_data f)"
  have lt: "i < count" using Suc.hyps(2) by simp
  then have leni: "i < length filters" using len by simp
  let ?s1 = "call_init_step P call_elems tsd iop i ud (filters ! i) (cds i) s"
  have u: "call_init_loop P channel_elems call_elems count tsd iop i ud s =
      call_init_loop P channel_elems call_elems count tsd iop (Suc i) (ud + ?R (filters ! i)) ?s1"
    using Suc.prems(1) [OF lt] lt by (simp add: call_init_loop_unfold)
  have m: "m = count - Suc i" using Suc.hyps(2) by simp
  have chan1: "\<And>j. j < count \<Longrightarrow>
      channel_elem_filter ?s1 (channel_elems + of_nat j * sizeof_grpc_channel_element P) =
        Some (filters ! j) \<and>
      channel_elem_channel_data ?s1 (channel_elems + of_nat j * sizeof_grpc_channel_element P) =
        Some (cds j)"
    using Suc.prems(1) by simp
  from Suc.hyps(1) [OF m chan1, of "ud + ?R (filters ! i)"] lt
  obtain s' where
    r: "call_init_loop P channel_elems call_elems count tsd iop (Suc i) (ud + ?R (filters ! i)) ?s1 =
          Return (ud + ?R (filters ! i) + sum_list (map ?R (drop (Suc i) (take count filters)))) s'"
    and t: "trace s' = trace ?s1 @
           map (\<lambda>j. Init_call_elem (filters ! j) (?e j) tsd iop) [Suc i..<count]"
    and fr: "channel_stack_count s' = channel_stack_count ?s1"
      "channel_stack_call_stack_size s' = channel_stack_call_stack_size ?s1"
      "channel_elem_filter s' = channel_elem_filter ?s1"
      "channel_elem_channel_data s' = channel_elem_channel_data ?s1"
      "call_stack_count s' = call_stack_count ?s1"
    and ot: "\<And>a. (\<And>j. Suc i \<le> j \<Longrightarrow> j < count \<Longrightarrow> a \<noteq> ?e j) \<Longrightarrow>
              call_elem_filter s' a = call_elem_filter ?s1 a \<and>
              call_elem_channel_data s' a = call_elem_channel_data ?s1 a \<and>
              call_elem_call_data s' a = call_elem_call_data ?s1 a"
    and el: "\<And>j. Suc i \<le> j \<Longrightarrow> j < count \<Longrightarrow>
              (\<And>k. j < k \<Longrightarrow> k < count \<Longrightarrow> ?e j \<noteq> ?e k) \<Longrightarrow>
              call_elem_filter s' (?e j) = Some (filters ! j) \<and>
              call_elem_channel_data s' (?e j) = Some (cds j) \<and>
              call_elem_call_data s' (?e j) =
                Some (ud + ?R (filters ! i) + sum_list (map ?R (drop (Suc i) (take j filters))))"
    by (auto simp add: Suc_le_eq)
  have d: "drop i (take count filters) = filters ! i # drop (Suc i) (take count filters)"
    using lt leni by (simp add: Cons_nth_drop_Suc [symmetric])
  have r': "call_init_loop P channel_elems call_elems count tsd iop i ud s =
      Return (ud + sum_list (map ?R (drop i (take count filters)))) s'"
    using u r by (simp add: d add.assoc)
  have t': "trace s' = trace s @
      map (\<lambda>j. Init_call_elem (filters ! j) (?e j) tsd iop) [i..<count]"
    using t lt by (simp add: upt_conv_Cons)
  have ot': "call_elem_filter s' a = call_elem_filter s a \<and>
        call_elem_channel_data s' a = call_elem_channel_data s a \<and>
        call_elem_call_data s' a = call_elem_call_data s a"
    if "\<forall>j. i \<le> j \<and> j < count \<longrightarrow> a \<noteq> ?e j" for a
  proof -
    have "a \<noteq> ?e i" using that lt by simp
    moreover have "\<And>j. Suc i \<le> j \<Longrightarrow> j < count \<Longrightarrow> a \<noteq> ?e j" using that by simp
    ultimately show ?thesis using ot [of a] by simp
  qed
  have el': "call_elem_filter s' (?e j) = Some (filters ! j) \<and>
        call_elem_channel_data s' (?e j) = Some (cds j) \<and>
        call_elem_call_data s' (?e j) = Some (ud + sum_list (map ?R (drop i (take j filters))))"
    if "i \<le> j \<and> j < count \<and> (\<forall>k. j < k \<and> k < count \<longrightarrow> ?e j \<noteq> ?e k)" for j
  proof (cases "i = j")
    case True
    have "\<And>k. Suc i \<le> k \<Longrightarrow> k < count \<Longrightarrow> ?e i \<noteq> ?e k"
      using that True by (simp add: Suc_le_eq)
    from ot [of "?e i", OF this] True show ?thesis by simp
  next
    case False
    then have ij: "Suc i \<le> j" using that by simp
    have "drop i (take j filters) = filters ! i # drop (Suc i) (take j filters)"
      using ij leni by (simp add: Cons_nth_drop_Suc [symmetric])
    then show ?thesis
      using el [OF ij] that by (simp add: add.assoc)
  qed
  show ?case
    using r' t' fr ot' el' by simp
qed

section \<open>What call stack initialisation leaves behind, and the destroy loops\<close>

lemma call_elems_distinct:
  fixes P :: "'a::len platform"
  assumes p: "is_power_of_two (GPR_MAX_ALIGNMENT P)"
    and fits: "call_stack_fits P filters n call_stack"
    and E: "sizeof_grpc_call_element P \<noteq> 0"
    and jk: "j < k" "k \<le> unat n"
  shows "unat (CALL_ELEMS_FROM_STACK P call_stack + of_nat j * sizeof_grpc_call_element P) <
         unat (CALL_ELEMS_FROM_STACK P call_stack + of_nat k * sizeof_grpc_call_element P)"
proof -
  have f: "unat call_stack +
      (round_up_nat (unat (GPR_MAX_ALIGNMENT P)) (unat (sizeof_grpc_call_stack P)) +
       round_up_nat (unat (GPR_MAX_ALIGNMENT P)) (unat n * unat (sizeof_grpc_call_element P)) +
       sum_list (map (\<lambda>f. round_up_nat (unat (GPR_MAX_ALIGNMENT P)) (unat (sizeof_call_data f)))
         (take (unat n) filters))) < 2 ^ LENGTH('a)"
    using fits by (simp add: call_stack_fits_def call_stack_extent_def)
  have "0 < unat (sizeof_grpc_call_element P)" using E by (simp add: unat_gt_0)
  then have "j * unat (sizeof_grpc_call_element P) < k * unat (sizeof_grpc_call_element P)"
    using jk(1) by simp
  then show ?thesis
    using jk layout_elem [OF p f, of j] layout_elem [OF p f, of k]
    by (simp add: CALL_ELEMS_FROM_STACK_def)
qed

text \<open>
  Call stack initialisation on a state whose channel stack at \<open>stack\<close> has the count
  \<open>n\<close> and, in its first \<open>n\<close> element slots, the filters \<open>filters\<close> and the data
  pointers \<open>cds\<close>.
\<close>

lemma call_stack_init_cursor_post:
  fixes P :: "'a::len platform"
  assumes count: "channel_stack_count s stack = Some n"
    and chan: "\<And>j. j < unat n \<Longrightarrow>
      channel_elem_filter s (grpc_channel_stack_element P stack (of_nat j)) = Some (filters ! j) \<and>
      channel_elem_channel_data s (grpc_channel_stack_element P stack (of_nat j)) = Some (cds j)"
    and len: "unat n \<le> length filters"
  shows "\<exists>s'. call_stack_init_cursor P stack tsd iop call_stack s =
           Return (call_stack +
                   (ROUND_UP_TO_ALIGNMENT_SIZE P (sizeof_grpc_call_stack P) +
                    ROUND_UP_TO_ALIGNMENT_SIZE P (n * sizeof_grpc_call_element P) +
                    sum_list (map (\<lambda>f. ROUND_UP_TO_ALIGNMENT_SIZE P (sizeof_call_data f))
                            (take (unat n) filters)))) s' \<and>
         grpc_call_stack_init P stack tsd iop call_stack s = Return () s' \<and>
         trace s' = trace s @
           map (\<lambda>j. Init_call_elem (filters ! j)
                     (grpc_call_stack_element P call_stack (of_nat j)) tsd iop) [0..<unat n] \<and>
         channel_stack_count s' = channel_stack_count s \<and>
         channel_stack_call_stack_size s' = channel_stack_call_stack_size s \<and>
         channel_elem_filter s' = channel_elem_filter s \<and>
         channel_elem_channel_data s' = channel_elem_channel_data s \<and>
         call_stack_count s' = (call_stack_count s)(call_stack \<mapsto> n) \<and>
         (\<forall>j. j < unat n \<and>
              (\<forall>k. j < k \<and> k < unat n \<longrightarrow>
                 grpc_call_stack_element P call_stack (of_nat j) \<noteq>
                 grpc_call_stack_element P call_stack (of_nat k)) \<longrightarrow>
              call_elem_filter s' (grpc_call_stack_element P call_stack (of_nat j)) =
                Some (filters ! j) \<and>
              call_elem_channel_data s' (grpc_call_stack_element P call_stack (of_nat j)) =
                Some (cds j) \<and>
              call_elem_call_data s' (grpc_call_stack_element P call_stack (of_nat j)) =
                Some (CALL_ELEMS_FROM_STACK P call_stack +
                      ROUND_UP_TO_ALIGNMENT_SIZE P (n * sizeof_grpc_call_element P) +
                      sum_list (map (\<lambda>f. ROUND_UP_TO_ALIGNMENT_SIZE P (sizeof_call_data f))
                              (take j filters))))"
proof -
  let ?s0 = "s\<lparr>call_stack_count := (call_stack_count s)(call_stack \<mapsto> n)\<rparr>"
  have chan0: "\<And>j. j < unat n \<Longrightarrow>
      channel_elem_filter ?s0
        (CHANNEL_ELEMS_FROM_STACK P stack + of_nat j * sizeof_grpc_channel_element P) =
        Some (filters ! j) \<and>
      channel_elem_channel_data ?s0
        (CHANNEL_ELEMS_FROM_STACK P stack + of_nat j * sizeof_grpc_channel_element P) =
        Some (cds j)"
    using chan by (simp add: grpc_channel_stack_element_def)
  from call_init_loop_post [OF chan0 len, of 0 "CALL_ELEMS_FROM_STACK P call_stack" tsd iop
      "CALL_ELEMS_FROM_STACK P call_stack +
       ROUND_UP_TO_ALIGNMENT_SIZE P (n * sizeof_grpc_call_element P)"]
  obtain s' where
    r: "call_init_loop P (CHANNEL_ELEMS_FROM_STACK P stack) (CALL_ELEMS_FROM_STACK P call_stack)
          (unat n) tsd iop 0
          (CALL_ELEMS_FROM_STACK P call_stack +
             ROUND_UP_TO_ALIGNMENT_SIZE P (n * sizeof_grpc_call_element P)) ?s0 =
        Return (CALL_ELEMS_FROM_STACK P call_stack +
             ROUND_UP_TO_ALIGNMENT_SIZE P (n * sizeof_grpc_call_element P) +
             sum_list (map (\<lambda>f. ROUND_UP_TO_ALIGNMENT_SIZE P (sizeof_call_data f))
                            (take (unat n) filters))) s'"
    and rest: "trace s' = trace ?s0 @
           map (\<lambda>j. Init_call_elem (filters ! j)
                  (CALL_ELEMS_FROM_STACK P call_stack + of_nat j * sizeof_grpc_call_element P)
                  tsd iop) [0..<unat n]"
      "channel_stack_count s' = channel_stack_count ?s0"
      "channel_stack_call_stack_size s' = channel_stack_call_stack_size ?s0"
      "channel_elem_filter s' = channel_elem_filter ?s0"
      "channel_elem_channel_data s' = channel_elem_channel_data ?s0"
      "call_stack_count s' = call_stack_count ?s0"
    and el: "\<forall>j. 0 \<le> j \<and> j < unat n \<and>
              (\<forall>k. j < k \<and> k < unat n \<longrightarrow>
                 CALL_ELEMS_FROM_STACK P call_stack + of_nat j * sizeof_grpc_call_element P \<noteq>
                 CALL_ELEMS_FROM_STACK P call_stack + of_nat k * sizeof_grpc_call_element P) \<longrightarrow>
              call_elem_filter s'
                (CALL_ELEMS_FROM_STACK P call_stack + of_nat j * sizeof_grpc_call_element P) =
                Some (filters ! j) \<and>
              call_elem_channel_data s'
                (CALL_ELEMS_FROM_STACK P call_stack + of_nat j * sizeof_grpc_call_element P) =
                Some (cds j) \<and>
              call_elem_call_data s'
                (CALL_ELEMS_FROM_STACK P call_stack + of_nat j * sizeof_grpc_call_element P) =
                Some (CALL_ELEMS_FROM_STACK P call_stack +
                      ROUND_UP_TO_ALIGNMENT_SIZE P (n * sizeof_grpc_call_element P) +
                      sum_list (map (\<lambda>f. ROUND_UP_TO_ALIGNMENT_SIZE P (sizeof_call_data f))
                              (drop 0 (take j filters))))"
    by auto
  have c: "call_stack_init_cursor P stack tsd iop call_stack s =
      Return (call_stack +
                   (ROUND_UP_TO_ALIGNMENT_SIZE P (sizeof_grpc_call_stack P) +
                    ROUND_UP_TO_ALIGNMENT_SIZE P (n * sizeof_grpc_call_element P) +
                    sum_list (map (\<lambda>f. ROUND_UP_TO_ALIGNMENT_SIZE P (sizeof_call_data f))
                            (take (unat n) filters)))) s'"
    using count r
    by (simp add: call_stack_init_cursor_def Let_def CALL_ELEMS_FROM_STACK_def add.assoc)
  then have "grpc_call_stack_init P stack tsd iop call_stack s = Return () s'"
    by (simp add: grpc_call_stack_init_def)
  with c rest el show ?thesis
    by (simp add: grpc_call_stack_element_def)
qed

lemma channel_destroy_loop_unfold:
  "i < count \<Longrightarrow>
   channel_elem_filter s (channel_elems + of_nat i * sizeof_grpc_channel_element P) = Some f \<Longrightarrow>
   channel_destroy_loop P channel_elems count i s =
   channel_destroy_loop P channel_elems count (Suc i)
     (s\<lparr>trace := trace s @
        [Destroy_channel_elem f (channel_elems + of_nat i * sizeof_grpc_channel_element P)]\<rparr>)"
  "\<not> i < count \<Longrightarrow> channel_destroy_loop P channel_elems count i s = Return () s"
  by (subst channel_destroy_loop.simps, simp add: Let_def)+

lemma call_destroy_loop_unfold:
  "i < count \<Longrightarrow>
   call_elem_filter s (elems + of_nat i * sizeof_grpc_call_element P) = Some f \<Longrightarrow>
   call_destroy_loop P elems count i s =
   call_destroy_loop P elems count (Suc i)
     (s\<lparr>trace := trace s @
        [Destroy_call_elem f (elems + of_nat i * sizeof_grpc_call_element P)]\<rparr>)"
  "\<not> i < count \<Longrightarrow> call_destroy_loop P elems count i s = Return () s"
  by (subst call_destroy_loop.simps, simp add: Let_def)+

lemma channel_destroy_loop_post:
  assumes "\<And>j. j < count \<Longrightarrow>
      channel_elem_filter s (channel_elems + of_nat j * sizeof_grpc_channel_element P) =
        Some (filters ! j)"
    and "i \<le> count"
  shows "channel_destroy_loop P channel_elems count i s =
     Return () (s\<lparr>trace := trace s @
       map (\<lambda>j. Destroy_channel_elem (filters ! j)
                 (channel_elems + of_nat j * sizeof_grpc_channel_element P)) [i..<count]\<rparr>)"
  using assms
proof (induction "count - i" arbitrary: i s)
  case 0
  then show ?case by (simp add: channel_destroy_loop_unfold)
next
  case (Suc m)
  have lt: "i < count" using Suc.hyps(2) by simp
  have m: "m = count - Suc i" using Suc.hyps(2) by simp
  let ?s1 = "s\<lparr>trace := trace s @
        [Destroy_channel_elem (filters ! i)
           (channel_elems + of_nat i * sizeof_grpc_channel_element P)]\<rparr>"
  have "\<And>j. j < count \<Longrightarrow>
      channel_elem_filter ?s1 (channel_elems + of_nat j * sizeof_grpc_channel_element P) =
        Some (filters ! j)"
    using Suc.prems(1) by simp
  from Suc.hyps(1) [OF m this] lt Suc.prems(1) [OF lt]
  show ?case
    by (simp add: channel_destroy_loop_unfold upt_conv_Cons)
qed

lemma call_destroy_loop_post:
  assumes "\<And>j. j < count \<Longrightarrow>
      call_elem_filter s (elems + of_nat j * sizeof_grpc_call_element P) = Some (filters ! j)"
    and "i \<le> count"
  shows "call_destroy_loop P elems count i s =
     Return () (s\<lparr>trace := trace s @
       map (\<lambda>j. Destroy_call_elem (filters ! j)
                 (elems + of_nat j * sizeof_grpc_call_element P)) [i..<count]\<rparr>)"
  using assms
proof (induction "count - i" arbitrary: i s)
  case 0
  then show ?case by (simp add: call_destroy_loop_unfold)
next
  case (Suc m)
  have lt: "i < count" using Suc.hyps(2) by simp
  have m: "m = count - Suc i" using Suc.hyps(2) by simp
  let ?s1 = "s\<lparr>trace := trace s @
        [Destroy_call_elem (filters ! i) (elems + of_nat i * sizeof_grpc_call_element P)]\<rparr>"
  have "\<And>j. j < count \<Longrightarrow>
      call_elem_filter ?s1 (elems + of_nat j * sizeof_grpc_call_element P) = Some (filters ! j)"
    using Suc.prems(1) by simp
  from Suc.hyps(1) [OF m this] lt Suc.prems(1) [OF lt]
  show ?case
    by (simp add: call_destroy_loop_unfold upt_conv_Cons)
qed

section \<open>Stacks once built: destruction and propagation\<close>

text \<open>The two stacks of a channel and of a call on it, built one after the other.\<close>

lemma stacks_built:
  fixes P :: "'a::len platform"
  assumes init: "grpc_channel_stack_init P filters n args md stack s = Return () s1"
    and fits: "channel_stack_fits P filters n stack"
    and E: "sizeof_grpc_channel_element P \<noteq> 0"
    and cinit: "grpc_call_stack_init P stack tsd iop call_stack s1 = Return () s2"
    and cfits: "call_stack_fits P filters n call_stack"
    and Ec: "sizeof_grpc_call_element P \<noteq> 0"
  shows built_trace: "trace s2 = trace s1 @
           map (\<lambda>j. Init_call_elem (filters ! j)
                     (grpc_call_stack_element P call_stack (of_nat j)) tsd iop) [0..<unat n]"
    and built_counts: "channel_stack_count s2 stack = Some n" "call_stack_count s2 call_stack = Some n"
    and built_channel_elem: "j < unat n \<Longrightarrow>
          channel_elem_filter s2 (grpc_channel_stack_element P stack (of_nat j)) = Some (filters ! j)"
    and built_call_elem: "j < unat n \<Longrightarrow>
          call_elem_filter s2 (grpc_call_stack_element P call_stack (of_nat j)) = Some (filters ! j)"
    and built_shared: "j < unat n \<Longrightarrow>
          call_elem_channel_data s2 (grpc_call_stack_element P call_stack (of_nat j)) =
          channel_elem_channel_data s1 (grpc_channel_stack_element P stack (of_nat j))"
proof -
  note p = channel_stack_init_power_of_two [OF init]
  note len = init_len [OF init fits E]
  let ?cds = "\<lambda>j. CHANNEL_ELEMS_FROM_STACK P stack +
                ROUND_UP_TO_ALIGNMENT_SIZE P (n * sizeof_grpc_channel_element P) +
                sum_list (map (\<lambda>f. ROUND_UP_TO_ALIGNMENT_SIZE P (sizeof_channel_data f))
                        (take j filters))"
  have count: "channel_stack_count s1 stack = Some n"
    by (simp add: init_count [OF init fits E])
  have chan: "\<And>j. j < unat n \<Longrightarrow>
      channel_elem_filter s1 (grpc_channel_stack_element P stack (of_nat j)) = Some (filters ! j) \<and>
      channel_elem_channel_data s1 (grpc_channel_stack_element P stack (of_nat j)) = Some (?cds j)"
    by (rule init_elem [OF init fits E])
  from call_stack_init_cursor_post [OF count chan len, of tsd iop call_stack]
  obtain s' where
    r: "grpc_call_stack_init P stack tsd iop call_stack s1 = Return () s'"
    and t: "trace s' = trace s1 @
           map (\<lambda>j. Init_call_elem (filters ! j)
                     (grpc_call_stack_element P call_stack (of_nat j)) tsd iop) [0..<unat n]"
    and fr: "channel_stack_count s' = channel_stack_count s1"
         "channel_elem_filter s' = channel_elem_filter s1"
         "call_stack_count s' = (call_stack_count s1)(call_stack \<mapsto> n)"
    and el: "\<And>j. j < unat n \<Longrightarrow>
              (\<And>k. j < k \<Longrightarrow> k < unat n \<Longrightarrow>
                 grpc_call_stack_element P call_stack (of_nat j) \<noteq>
                 grpc_call_stack_element P call_stack (of_nat k)) \<Longrightarrow>
              call_elem_filter s' (grpc_call_stack_element P call_stack (of_nat j)) =
                Some (filters ! j) \<and>
              call_elem_channel_data s' (grpc_call_stack_element P call_stack (of_nat j)) =
                Some (?cds j)"
    by auto
  have s': "s' = s2" using r cinit by simp
  have dist: "grpc_call_stack_element P call_stack (of_nat j) \<noteq>
      grpc_call_stack_element P call_stack (of_nat k)" if "j < k" "k < unat n" for j k
    using call_elems_distinct [OF p cfits Ec, of j k] that
    by (auto simp add: grpc_call_stack_element_def)
  show "trace s2 = trace s1 @
           map (\<lambda>j. Init_call_elem (filters ! j)
                     (grpc_call_stack_element P call_stack (of_nat j)) tsd iop) [0..<unat n]"
    using t s' by simp
  show "channel_stack_count s2 stack = Some n" "call_stack_count s2 call_stack = Some n"
    using fr count s' by simp_all
  show "channel_elem_filter s2 (grpc_channel_stack_element P stack (of_nat j)) = Some (filters ! j)"
    if "j < unat n"
    using chan [OF that] fr s' by simp
  show "call_elem_filter s2 (grpc_call_stack_element P call_stack (of_nat j)) = Some (filters ! j)"
    if "j < unat n"
    using el [OF that] dist s' by simp
  show "call_elem_channel_data s2 (grpc_call_stack_element P call_stack (of_nat j)) =
          channel_elem_channel_data s1 (grpc_channel_stack_element P stack (of_nat j))"
    if "j < unat n"
    using el [OF that] dist chan [OF that] s' by simp
qed

lemma channel_stack_destroy_post:
  assumes "channel_stack_count t stack = Some n"
    and "\<And>j. j < unat n \<Longrightarrow>
      channel_elem_filter t (grpc_channel_stack_element P stack (of_nat j)) = Some (filters ! j)"
  shows "grpc_channel_stack_destroy P stack t =
     Return () (t\<lparr>trace := trace t @
       map (\<lambda>j. Destroy_channel_elem (filters ! j)
                 (grpc_channel_stack_element P stack (of_nat j))) [0..<unat n]\<rparr>)"
proof -
  have "\<And>j. j < unat n \<Longrightarrow>
      channel_elem_filter t
        (CHANNEL_ELEMS_FROM_STACK P stack + of_nat j * sizeof_grpc_channel_element P) =
        Some (filters ! j)"
    using assms(2) by (simp add: grpc_channel_stack_element_def)
  from channel_destroy_loop_post [where i = 0, OF this] assms(1)
  show ?thesis
    by (simp add: grpc_channel_stack_destroy_def grpc_channel_stack_element_def)
qed

lemma call_stack_destroy_post:
  assumes "call_stack_count t call_stack = Some n"
    and "\<And>j. j < unat n \<Longrightarrow>
      call_elem_filter t (grpc_call_stack_element P call_stack (of_nat j)) = Some (filters ! j)"
  shows "grpc_call_stack_destroy P call_stack t =
     Return () (t\<lparr>trace := trace t @
       map (\<lambda>j. Destroy_call_elem (filters ! j)
                 (grpc_call_stack_element P call_stack (of_nat j))) [0..<unat n]\<rparr>)"
proof -
  have "\<And>j. j < unat n \<Longrightarrow>
      call_elem_filter t
        (CALL_ELEMS_FROM_STACK P call_stack + of_nat j * sizeof_grpc_call_element P) =
        Some (filters ! j)"
    using assms(2) by (simp add: grpc_call_stack_element_def)
  from call_destroy_loop_post [where i = 0, OF this] assms(1)
  show ?thesis
    by (simp add: grpc_call_stack_destroy_def grpc_call_stack_element_def)
qed

lemma call_next_op_post:
  assumes "call_elem_filter t (grpc_call_stack_element P call_stack (of_nat (Suc i))) = Some f"
  shows "grpc_call_next_op P (grpc_call_stack_element P call_stack (of_nat i)) op t =
     Return () (t\<lparr>trace := trace t @
       [Start_transport_op f (grpc_call_stack_element P call_stack (of_nat (Suc i))) op]\<rparr>)"
  using assms
  by (simp add: grpc_call_next_op_def Let_def grpc_call_stack_element_def algebra_simps)

lemma channel_next_op_post:
  assumes "channel_elem_filter t (grpc_channel_stack_element P stack (of_nat (Suc i))) = Some f"
    and "dir op = 1"
  shows "grpc_channel_next_op P (grpc_channel_stack_element P stack (of_nat i)) op t =
     Return () (t\<lparr>trace := trace t @
       [Channel_op f (grpc_channel_stack_element P stack (of_nat (Suc i)))
          (grpc_channel_stack_element P stack (of_nat i)) op]\<rparr>)"
  using assms
  by (simp add: grpc_channel_next_op_def Let_def grpc_channel_stack_element_def algebra_simps)

lemma channel_prev_op_post:
  assumes "channel_elem_filter t (grpc_channel_stack_element P stack (of_nat (i - 1))) = Some f"
    and "dir op = - 1" and "0 < i"
  shows "grpc_channel_next_op P (grpc_channel_stack_element P stack (of_nat i)) op t =
     Return () (t\<lparr>trace := trace t @
       [Channel_op f (grpc_channel_stack_element P stack (of_nat (i - 1)))
          (grpc_channel_stack_element P stack (of_nat i)) op]\<rparr>)"
  using assms
  by (simp add: grpc_channel_next_op_def Let_def grpc_channel_stack_element_def of_nat_diff
      algebra_simps)

section \<open>The scenario of three filters\<close>

lemma call_stack_init_returns:
  fixes P :: "'a::len platform"
  assumes init: "grpc_channel_stack_init P filters n args md stack s = Return () s1"
    and fits: "channel_stack_fits P filters n stack"
    and E: "sizeof_grpc_channel_element P \<noteq> 0"
  shows "\<exists>s2. call_stack_init_cursor P stack tsd iop call_stack s1 =
           Return (call_stack +
                   (ROUND_UP_TO_ALIGNMENT_SIZE P (sizeof_grpc_call_stack P) +
                    ROUND_UP_TO_ALIGNMENT_SIZE P (n * sizeof_grpc_call_element P) +
                    sum_list (map (\<lambda>f. ROUND_UP_TO_ALIGNMENT_SIZE P (sizeof_call_data f))
                            (take (unat n) filters)))) s2 \<and>
         grpc_call_stack_init P stack tsd iop call_stack s1 = Return () s2"
proof -
  have count: "channel_stack_count s1 stack = Some n"
    by (simp add: init_count [OF init fits E])
  from call_stack_init_cursor_post [OF count init_elem [OF init fits E] init_len [OF init fits E],
      where tsd = tsd and iop = iop and call_stack = call_stack]
  show ?thesis by blast
qed

text \<open>The scenario: three filters, the channel stack at 4096, the call stack at 8192.\<close>

lemma scenario_facts:
  shows scenario_len: "unat (3 :: 64 word) \<le> length scenario_filters"
    and scenario_fits: "channel_stack_fits platform_lp64 scenario_filters 3 4096"
    and scenario_call_fits: "call_stack_fits platform_lp64 scenario_filters 3 8192"
    and scenario_sizes: "sizeof_grpc_channel_stack platform_lp64 \<noteq> 0"
      "sizeof_grpc_channel_element platform_lp64 \<noteq> 0"
      "sizeof_grpc_call_element platform_lp64 \<noteq> 0"
  by (simp_all add: channel_stack_fits_def channel_stack_extent_def call_stack_fits_def
      call_stack_extent_def round_up_nat_def platform_lp64_def scenario_filters_def)

lemma scenario_built:
  shows scenario_channel_built:
      "grpc_channel_stack_init platform_lp64 scenario_filters 3 7 9 4096 empty_state =
         Return () scenario_channel_state"
    and scenario_call_built:
      "grpc_call_stack_init platform_lp64 4096 5 6 8192 scenario_channel_state =
         Return () scenario_call_state"
proof -
  from channel_stack_init_returns [OF scenario_len platform_lp64_power_of_two scenario_fits
      scenario_sizes(1), of 7 9 empty_state]
  show s1: "grpc_channel_stack_init platform_lp64 scenario_filters 3 7 9 4096 empty_state =
      Return () scenario_channel_state"
    by (auto simp add: scenario_channel_state_def)
  from call_stack_init_returns [OF s1 scenario_fits scenario_sizes(2),
      where call_stack = 8192 and tsd = 5 and iop = 6]
  show "grpc_call_stack_init platform_lp64 4096 5 6 8192 scenario_channel_state =
      Return () scenario_call_state"
    by (auto simp add: scenario_call_state_def)
qed

lemma scenario_values:
  "ROUND_UP_TO_ALIGNMENT_SIZE platform_lp64 (sizeof_grpc_call_stack platform_lp64) +
   ROUND_UP_TO_ALIGNMENT_SIZE platform_lp64 (3 * sizeof_grpc_call_element platform_lp64) +
   sum_list (map (\<lambda>f. ROUND_UP_TO_ALIGNMENT_SIZE platform_lp64 (sizeof_call_data f))
     (take 3 scenario_filters)) = 128"
  "grpc_channel_stack_element platform_lp64 4096 (of_nat 0) = 4112"
  "grpc_channel_stack_element platform_lp64 4096 (of_nat 1) = 4128"
  "grpc_channel_stack_element platform_lp64 4096 (of_nat 2) = 4144"
  "grpc_call_stack_element platform_lp64 8192 (of_nat 0) = 8208"
  "grpc_call_stack_element platform_lp64 8192 (of_nat 1) = 8232"
  "grpc_call_stack_element platform_lp64 8192 (of_nat 2) = 8256"
  by (simp_all add: ROUND_UP_TO_ALIGNMENT_SIZE_def platform_lp64_def scenario_filters_def
      grpc_channel_stack_element_def grpc_call_stack_element_def
      CHANNEL_ELEMS_FROM_STACK_def CALL_ELEMS_FROM_STACK_def)

section \<open>Cancellation and the per-filter data regions\<close>

lemma send_cancel_post:
  assumes "call_elem_filter t (grpc_call_stack_element P call_stack (of_nat (Suc i))) = Some f"
  shows "grpc_call_element_send_cancel P (grpc_call_stack_element P call_stack (of_nat i)) t =
     Return () (t\<lparr>trace := trace t @
       [Start_transport_op f (grpc_call_stack_element P call_stack (of_nat (Suc i)))
          \<lparr>cancel_with_status = GRPC_STATUS_CANCELLED P, transport_op_fields = (\<lambda>_. 0)\<rparr>]\<rparr>)"
  using call_next_op_post [OF assms]
  by (simp add: grpc_call_element_send_cancel_def Let_def)

lemma channel_data_unat:
  fixes P :: "'a::len platform"
  assumes p: "is_power_of_two (GPR_MAX_ALIGNMENT P)"
    and fits: "channel_stack_fits P filters n stack"
    and i: "i \<le> unat n"
  shows "unat (CHANNEL_ELEMS_FROM_STACK P stack +
               ROUND_UP_TO_ALIGNMENT_SIZE P (n * sizeof_grpc_channel_element P) +
               sum_list (map (\<lambda>f. ROUND_UP_TO_ALIGNMENT_SIZE P (sizeof_channel_data f))
                       (take i filters))) =
         unat stack +
         round_up_nat (unat (GPR_MAX_ALIGNMENT P)) (unat (sizeof_grpc_channel_stack P)) +
         round_up_nat (unat (GPR_MAX_ALIGNMENT P)) (unat n * unat (sizeof_grpc_channel_element P)) +
         sum_list (map (\<lambda>f. round_up_nat (unat (GPR_MAX_ALIGNMENT P)) (unat (sizeof_channel_data f)))
                 (take i filters))"
proof -
  have f: "unat stack +
      (round_up_nat (unat (GPR_MAX_ALIGNMENT P)) (unat (sizeof_grpc_channel_stack P)) +
       round_up_nat (unat (GPR_MAX_ALIGNMENT P)) (unat n * unat (sizeof_grpc_channel_element P)) +
       sum_list (map (\<lambda>f. round_up_nat (unat (GPR_MAX_ALIGNMENT P)) (unat (sizeof_channel_data f)))
         (take (unat n) filters))) < 2 ^ LENGTH('a)"
    using fits by (simp add: channel_stack_fits_def channel_stack_extent_def)
  from layout_data [OF p f, of i] i show ?thesis
    by (simp add: CHANNEL_ELEMS_FROM_STACK_def min_def)
qed

lemma channel_data_regions_apart:
  fixes P :: "'a::len platform"
  assumes p: "is_power_of_two (GPR_MAX_ALIGNMENT P)"
    and fits: "channel_stack_fits P filters n stack"
    and len: "unat n \<le> length filters"
    and ij: "i < j" "j \<le> unat n"
  shows "unat (CHANNEL_ELEMS_FROM_STACK P stack +
               ROUND_UP_TO_ALIGNMENT_SIZE P (n * sizeof_grpc_channel_element P) +
               sum_list (map (\<lambda>f. ROUND_UP_TO_ALIGNMENT_SIZE P (sizeof_channel_data f))
                       (take i filters))) +
         unat (sizeof_channel_data (filters ! i)) \<le>
         unat (CHANNEL_ELEMS_FROM_STACK P stack +
               ROUND_UP_TO_ALIGNMENT_SIZE P (n * sizeof_grpc_channel_element P) +
               sum_list (map (\<lambda>f. ROUND_UP_TO_ALIGNMENT_SIZE P (sizeof_channel_data f))
                       (take j filters)))"
proof -
  let ?r = "\<lambda>f. round_up_nat (unat (GPR_MAX_ALIGNMENT P)) (unat (sizeof_channel_data f))"
  have il: "i < length filters" using ij len by linarith
  have "take (Suc i) filters = take (Suc i) (take j filters)"
    using ij by (simp add: min_def)
  then have "sum_list (map ?r (take (Suc i) filters)) \<le> sum_list (map ?r (take j filters))"
    using sum_list_take_le [of ?r "Suc i" "take j filters"] by simp
  moreover have "sum_list (map ?r (take (Suc i) filters)) =
      sum_list (map ?r (take i filters)) + ?r (filters ! i)"
    using il by (simp add: take_Suc_conv_app_nth)
  moreover have "unat (sizeof_channel_data (filters ! i)) \<le> ?r (filters ! i)"
    using power_of_two_unat_pos [OF p] by (rule round_up_nat_ge)
  ultimately show ?thesis
    using channel_data_unat [OF p fits, of i] channel_data_unat [OF p fits, of j] ij
    by simp
qed

section \<open>The round-trip sizing law\<close>

text \<open>
  Claim C1. For every filter list and count, the user-data cursor at the end of the loop
  of \<^verbatim>\<open>grpc_channel_stack_init\<close>, minus the address of the stack, is the byte size
  \<^verbatim>\<open>grpc_channel_stack_size\<close> returns for the same list and count, whenever both are
  reached. When the filter array has \<open>filter_count\<close> entries the loop does reach its
  end, and \<^verbatim>\<open>grpc_channel_stack_size\<close> returns that difference unless its own
  assertion on the alignment stops it. So the assertion that closes
  \<^verbatim>\<open>grpc_channel_stack_init\<close> never fails.
\<close>

theorem round_trip_sizing:
  "(\<forall>ud cs s' sz.
      channel_stack_init_cursor P filters filter_count args metadata_context stack s =
        Return (ud, cs) s' \<and>
      grpc_channel_stack_size P filters filter_count = Inr sz \<longrightarrow> ud - stack = sz) \<and>
   (unat filter_count \<le> length filters \<longrightarrow>
      (\<exists>ud cs s'.
         channel_stack_init_cursor P filters filter_count args metadata_context stack s =
           Return (ud, cs) s' \<and>
         grpc_channel_stack_size P filters filter_count =
           (if GPR_MAX_ALIGNMENT P AND (GPR_MAX_ALIGNMENT P - 1) = 0 then Inr (ud - stack)
            else Inl Alignment_not_power_of_two))) \<and>
   (\<forall>s'. grpc_channel_stack_init P filters filter_count args metadata_context stack s \<noteq>
      Fail Size_mismatch s')"
proof (intro conjI allI impI)
  fix ud cs s' sz
  assume "channel_stack_init_cursor P filters filter_count args metadata_context stack s =
        Return (ud, cs) s' \<and>
      grpc_channel_stack_size P filters filter_count = Inr sz"
  then show "ud - stack = sz" by (elim conjE) (rule cursor_matches_size)
next
  assume len: "unat filter_count \<le> length filters"
  then obtain ud cs s' where
    c: "channel_stack_init_cursor P filters filter_count args metadata_context stack s =
          Return (ud, cs) s'"
    using channel_stack_init_cursor_returns by blast
  have "grpc_channel_stack_size P filters filter_count =
           (if GPR_MAX_ALIGNMENT P AND (GPR_MAX_ALIGNMENT P - 1) = 0 then Inr (ud - stack)
            else Inl Alignment_not_power_of_two)"
  proof (cases "GPR_MAX_ALIGNMENT P AND (GPR_MAX_ALIGNMENT P - 1) = 0")
    case True
    then show ?thesis
      using channel_stack_init_cursor_value(2) [OF c] len
      by (simp add: grpc_channel_stack_size_eq)
  next
    case False
    then show ?thesis by (simp add: grpc_channel_stack_size_def Let_def)
  qed
  with c show "\<exists>ud cs s'.
         channel_stack_init_cursor P filters filter_count args metadata_context stack s =
           Return (ud, cs) s' \<and>
         grpc_channel_stack_size P filters filter_count =
           (if GPR_MAX_ALIGNMENT P AND (GPR_MAX_ALIGNMENT P - 1) = 0 then Inr (ud - stack)
            else Inl Alignment_not_power_of_two)"
    by blast
next
  fix s'
  show "grpc_channel_stack_init P filters filter_count args metadata_context stack s \<noteq>
      Fail Size_mismatch s'"
  proof
    assume f: "grpc_channel_stack_init P filters filter_count args metadata_context stack s =
      Fail Size_mismatch s'"
    show False
    proof (cases "channel_stack_init_cursor P filters filter_count args metadata_context stack s")
      case (Fail e s2)
      then have "e = Invalid_access"
        by (auto simp add: channel_stack_init_cursor_def Let_def dest: channel_init_loop_fail)
      with f Fail show False by (simp add: grpc_channel_stack_init_def)
    next
      case (Return r s2)
      obtain ud cs where r: "r = (ud, cs)" by (cases r)
      show False
      proof (cases "grpc_channel_stack_size P filters filter_count")
        case (Inl e)
        then have "e \<noteq> Size_mismatch"
          by (auto simp add: grpc_channel_stack_size_def Let_def split: if_splits
              dest: stack_size_loop_fail)
        with f Return r Inl show False
          by (simp add: grpc_channel_stack_init_def split: if_splits)
      next
        case (Inr sz)
        with Return r have "ud - stack = sz" by (simp add: cursor_matches_size)
        with f Return r Inr show False
          by (simp add: grpc_channel_stack_init_def split: if_splits)
      qed
    qed
  qed
qed

text \<open>
  The law on the LP64 platform for the three filters of the scenario, with the stack at
  address 4096: the cursor ends at 4192 and the size is 96.
\<close>

theorem round_trip_sizing_witness:
  "unat (3 :: 64 word) \<le> length scenario_filters \<and>
   channel_stack_init_cursor platform_lp64 scenario_filters 3 7 9 4096 empty_state =
     Return (4192, 128)
       (state_of (channel_stack_init_cursor platform_lp64 scenario_filters 3 7 9 4096
          empty_state)) \<and>
   grpc_channel_stack_size platform_lp64 scenario_filters 3 = Inr (4192 - 4096) \<and>
   (4192 :: 64 word) - 4096 = 96"
proof -
  have l: "unat (3 :: 64 word) \<le> length scenario_filters"
    by (simp add: scenario_filters_def)
  from round_trip_sizing [of platform_lp64 scenario_filters 3 7 9 4096 empty_state] l
  obtain ud cs s' where
    c: "channel_stack_init_cursor platform_lp64 scenario_filters 3 7 9 4096 empty_state =
           Return (ud, cs) s'"
    and z: "grpc_channel_stack_size platform_lp64 scenario_filters 3 =
           (if GPR_MAX_ALIGNMENT platform_lp64 AND (GPR_MAX_ALIGNMENT platform_lp64 - 1) = 0
            then Inr (ud - 4096) else Inl Alignment_not_power_of_two)"
    by blast
  have "ud = 4192" "cs = 128"
    using channel_stack_init_cursor_value(2,3) [OF c]
    by (simp_all add: ROUND_UP_TO_ALIGNMENT_SIZE_def platform_lp64_def scenario_filters_def)
  with c z l show ?thesis
    by (simp add: pow2_and_pred [OF platform_lp64_power_of_two])
qed

section \<open>Owner recovery\<close>

text \<open>
  Claim C2, amended. Owner recovery (\<^verbatim>\<open>grpc_channel_stack_from_top_element\<close>,
  \<^verbatim>\<open>grpc_call_stack_from_top_element\<close>) applied to the element pointer the accessor
  returns at index 0, the top element, yields the pointer to the stack header. Applied
  to the element at index \<open>i\<close> it yields that pointer plus \<open>i\<close> times the size of an
  element.
\<close>

theorem owner_recovery_top_element:
  "grpc_channel_stack_from_top_element P (grpc_channel_stack_element P s 0) = s \<and>
   grpc_call_stack_from_top_element P (grpc_call_stack_element P c 0) = c \<and>
   grpc_channel_stack_from_top_element P (grpc_channel_stack_element P s i) =
     s + i * sizeof_grpc_channel_element P \<and>
   grpc_call_stack_from_top_element P (grpc_call_stack_element P c i) =
     c + i * sizeof_grpc_call_element P"
  by (simp add: grpc_channel_stack_from_top_element_def grpc_channel_stack_element_def
      grpc_call_stack_from_top_element_def grpc_call_stack_element_def
      CHANNEL_ELEMS_FROM_STACK_def CALL_ELEMS_FROM_STACK_def)

text \<open>
  The claim as first stated has owner recovery yield the header from the element of
  every index below the count. In the channel stack of the scenario, of count 3 at
  address 4096, it yields 4112 from the element at index 1.
\<close>

theorem owner_recovery_counterexample:
  "grpc_channel_stack_init platform_lp64 scenario_filters 3 7 9 4096 empty_state =
     Return () scenario_channel_state \<and>
   channel_stack_count scenario_channel_state 4096 = Some 3 \<and>
   (1 :: 64 word) < 3 \<and>
   grpc_channel_stack_from_top_element platform_lp64
     (grpc_channel_stack_element platform_lp64 4096 1) = 4112 \<and>
   grpc_channel_stack_from_top_element platform_lp64
     (grpc_channel_stack_element platform_lp64 4096 1) \<noteq> 4096 \<and>
   grpc_call_stack_from_top_element platform_lp64
     (grpc_call_stack_element platform_lp64 8192 1) \<noteq> 8192"
proof -
  have "channel_stack_count scenario_channel_state 4096 = Some 3"
    by (simp add: init_count [OF scenario_channel_built scenario_fits scenario_sizes(2)])
  with scenario_channel_built show ?thesis
    by (simp add: grpc_channel_stack_from_top_element_def grpc_channel_stack_element_def
        grpc_call_stack_from_top_element_def grpc_call_stack_element_def
        CHANNEL_ELEMS_FROM_STACK_def CALL_ELEMS_FROM_STACK_def platform_lp64_def)
qed

section \<open>The alignment law\<close>

text \<open>
  Claim C3, amended. Let \<^verbatim>\<open>GPR_MAX_ALIGNMENT\<close> be a power of two. For every \<open>x\<close>
  with \<open>x + GPR_MAX_ALIGNMENT \<le> 2 ^ w\<close> (\<open>w\<close> the width of \<^verbatim>\<open>size_t\<close>, so that the
  macro's sum does not wrap around), \<^verbatim>\<open>ROUND_UP_TO_ALIGNMENT_SIZE(x)\<close> is the least
  multiple of the alignment that is at least \<open>x\<close>. For every \<open>y\<close>, wrapped or not,
  \<^verbatim>\<open>ROUND_UP_TO_ALIGNMENT_SIZE(y)\<close> is a multiple of the alignment: so are the aligned
  header size, the aligned size of the element table and each filter's aligned
  channel-data size, and so is the value \<^verbatim>\<open>grpc_channel_stack_size\<close> returns, which
  it does return when the filter array has \<open>filter_count\<close> entries. If
  \<^verbatim>\<open>GPR_MAX_ALIGNMENT\<close> is not zero and not a power of two,
  \<^verbatim>\<open>grpc_channel_stack_size\<close> stops on its assertion.
\<close>

theorem round_up_alignment_law:
  fixes P :: "'a::len platform"
  shows
    "(is_power_of_two (GPR_MAX_ALIGNMENT P) \<longrightarrow>
        (unat x + unat (GPR_MAX_ALIGNMENT P) \<le> 2 ^ LENGTH('a) \<longrightarrow>
           multiple_of_alignment P (ROUND_UP_TO_ALIGNMENT_SIZE P x) \<and>
           x \<le> ROUND_UP_TO_ALIGNMENT_SIZE P x \<and>
           (\<forall>m. unat (GPR_MAX_ALIGNMENT P) dvd m \<and> unat x \<le> m \<longrightarrow>
                unat (ROUND_UP_TO_ALIGNMENT_SIZE P x) \<le> m)) \<and>
        (\<forall>y. multiple_of_alignment P (ROUND_UP_TO_ALIGNMENT_SIZE P y)) \<and>
        (\<forall>sz. grpc_channel_stack_size P filters filter_count = Inr sz \<longrightarrow>
              multiple_of_alignment P sz) \<and>
        (unat filter_count \<le> length filters \<longrightarrow>
           (\<exists>sz. grpc_channel_stack_size P filters filter_count = Inr sz))) \<and>
     (GPR_MAX_ALIGNMENT P \<noteq> 0 \<and> \<not> is_power_of_two (GPR_MAX_ALIGNMENT P) \<longrightarrow>
        grpc_channel_stack_size P filters filter_count = Inl Alignment_not_power_of_two)"
proof (intro conjI impI allI)
  assume p: "is_power_of_two (GPR_MAX_ALIGNMENT P)"
  then have pos: "0 < unat (GPR_MAX_ALIGNMENT P)"
    by (auto simp add: is_power_of_two_iff unat_pow2)
  assume b: "unat x + unat (GPR_MAX_ALIGNMENT P) \<le> 2 ^ LENGTH('a)"
  note e = round_up_exact [OF p b]
  show "multiple_of_alignment P (ROUND_UP_TO_ALIGNMENT_SIZE P x)"
    using p by (rule round_up_aligned)
  show "x \<le> ROUND_UP_TO_ALIGNMENT_SIZE P x"
    by (simp add: word_le_nat_alt e round_up_nat_ge [OF pos])
  show "unat (ROUND_UP_TO_ALIGNMENT_SIZE P x) \<le> m"
    if "unat (GPR_MAX_ALIGNMENT P) dvd m \<and> unat x \<le> m" for m
    using that by (simp add: e round_up_nat_least [OF pos])
next
  assume p: "is_power_of_two (GPR_MAX_ALIGNMENT P)"
  show "multiple_of_alignment P (ROUND_UP_TO_ALIGNMENT_SIZE P y)" for y
    using p by (rule round_up_aligned)
  show "multiple_of_alignment P sz"
    if "grpc_channel_stack_size P filters filter_count = Inr sz" for sz
    using that p by (rule grpc_channel_stack_size_aligned)
  show "\<exists>sz. grpc_channel_stack_size P filters filter_count = Inr sz"
    if "unat filter_count \<le> length filters"
    using that p by (simp add: grpc_channel_stack_size_eq pow2_and_pred)
next
  assume "GPR_MAX_ALIGNMENT P \<noteq> 0 \<and> \<not> is_power_of_two (GPR_MAX_ALIGNMENT P)"
  then show "grpc_channel_stack_size P filters filter_count = Inl Alignment_not_power_of_two"
    by (simp add: grpc_channel_stack_size_not_power_of_two)
qed

text \<open>
  The law at the LP64 platform, \<open>x = 13\<close> and the three filters of the scenario, and
  its last part at an alignment of 24.
\<close>

lemma not_power_of_two_24: "\<not> is_power_of_two (24 :: 64 word)"
  using pow2_and_pred [of "24 :: 64 word"] by auto

theorem round_up_alignment_law_witness:
  "is_power_of_two (GPR_MAX_ALIGNMENT platform_lp64) \<and>
   unat (13 :: 64 word) + unat (GPR_MAX_ALIGNMENT platform_lp64) \<le> 2 ^ 64 \<and>
   ROUND_UP_TO_ALIGNMENT_SIZE platform_lp64 13 = 16 \<and>
   multiple_of_alignment platform_lp64 (ROUND_UP_TO_ALIGNMENT_SIZE platform_lp64 13) \<and>
   13 \<le> ROUND_UP_TO_ALIGNMENT_SIZE platform_lp64 13 \<and>
   unat (ROUND_UP_TO_ALIGNMENT_SIZE platform_lp64 13) \<le> 32 \<and>
   grpc_channel_stack_size platform_lp64 scenario_filters 3 = Inr 96 \<and>
   multiple_of_alignment platform_lp64 96 \<and>
   GPR_MAX_ALIGNMENT (platform_lp64\<lparr>GPR_MAX_ALIGNMENT := 24\<rparr>) \<noteq> 0 \<and>
   \<not> is_power_of_two (GPR_MAX_ALIGNMENT (platform_lp64\<lparr>GPR_MAX_ALIGNMENT := 24\<rparr>)) \<and>
   grpc_channel_stack_size (platform_lp64\<lparr>GPR_MAX_ALIGNMENT := 24\<rparr>) scenario_filters 3 =
     Inl Alignment_not_power_of_two"
proof -
  have p: "is_power_of_two (GPR_MAX_ALIGNMENT platform_lp64)"
    unfolding is_power_of_two_iff by (intro exI [of _ 4]) (simp add: platform_lp64_def)
  have b: "unat (13 :: 64 word) + unat (GPR_MAX_ALIGNMENT platform_lp64) \<le> 2 ^ 64"
    by (simp add: platform_lp64_def)
  have s: "grpc_channel_stack_size platform_lp64 scenario_filters 3 = Inr 96"
    by (simp add: grpc_channel_stack_size_def stack_size_loop.simps
        ROUND_UP_TO_ALIGNMENT_SIZE_def platform_lp64_def scenario_filters_def)
  have r: "ROUND_UP_TO_ALIGNMENT_SIZE platform_lp64 13 = 16"
    by (simp add: ROUND_UP_TO_ALIGNMENT_SIZE_def platform_lp64_def)
  have n: "GPR_MAX_ALIGNMENT (platform_lp64\<lparr>GPR_MAX_ALIGNMENT := 24\<rparr>) \<noteq> 0"
      "\<not> is_power_of_two (GPR_MAX_ALIGNMENT (platform_lp64\<lparr>GPR_MAX_ALIGNMENT := 24\<rparr>))"
    by (simp_all add: not_power_of_two_24)
  have d: "unat (GPR_MAX_ALIGNMENT platform_lp64) dvd 32 \<and> unat (13 :: 64 word) \<le> 32"
    by (simp add: platform_lp64_def)
  show ?thesis
    using round_up_alignment_law [of platform_lp64 13 scenario_filters 3]
      round_up_alignment_law [of "platform_lp64\<lparr>GPR_MAX_ALIGNMENT := 24\<rparr>" 13 scenario_filters 3]
      p b s r n d
    by simp
qed

text \<open>
  The claim as first stated fails twice. With an alignment of 16 and \<open>x = 2 ^ 64 - 1\<close>
  the macro's sum wraps around and the result is 0, below \<open>x\<close>. With an alignment of
  0, which is not a power of two, the assertion \<^verbatim>\<open>(A & (A - 1)) == 0\<close> holds and
  \<^verbatim>\<open>grpc_channel_stack_size\<close> returns.
\<close>

theorem round_up_alignment_counterexample:
  "is_power_of_two (GPR_MAX_ALIGNMENT platform_lp64) \<and>
   \<not> (- 1 \<le> ROUND_UP_TO_ALIGNMENT_SIZE platform_lp64 (- 1)) \<and>
   \<not> is_power_of_two (GPR_MAX_ALIGNMENT (platform_lp64\<lparr>GPR_MAX_ALIGNMENT := 0\<rparr>)) \<and>
   grpc_channel_stack_size (platform_lp64\<lparr>GPR_MAX_ALIGNMENT := 0\<rparr>) scenario_filters 3 = Inr 0"
proof -
  have "is_power_of_two (GPR_MAX_ALIGNMENT platform_lp64)"
    unfolding is_power_of_two_iff by (intro exI [of _ 4]) (simp add: platform_lp64_def)
  moreover have "ROUND_UP_TO_ALIGNMENT_SIZE platform_lp64 (- 1) = 0"
    by (simp add: ROUND_UP_TO_ALIGNMENT_SIZE_def platform_lp64_def)
  moreover have "\<not> is_power_of_two (0 :: 64 word)"
    by (simp add: is_power_of_two_iff)
  moreover have
    "grpc_channel_stack_size (platform_lp64\<lparr>GPR_MAX_ALIGNMENT := 0\<rparr>) scenario_filters 3 = Inr 0"
    by (simp add: grpc_channel_stack_size_def stack_size_loop.simps
        ROUND_UP_TO_ALIGNMENT_SIZE_def platform_lp64_def scenario_filters_def)
  ultimately show ?thesis by simp
qed

section \<open>The size of a call stack\<close>

text \<open>
  Claim C4. Let \<^verbatim>\<open>grpc_channel_stack_init\<close> return on a channel stack whose memory lies
  inside the address space, with elements of a size other than 0. The
  \<^verbatim>\<open>call_stack_size\<close> it stored in the header is the aligned size of the call stack
  header, plus the aligned size of the table of \<open>filter_count\<close> call elements, plus the
  sum over the filters of their aligned \<^verbatim>\<open>sizeof_call_data\<close>. And
  \<^verbatim>\<open>grpc_call_stack_init\<close> on that channel stack reaches the end of its loop with the
  user-data cursor at the address of the call stack plus that \<^verbatim>\<open>call_stack_size\<close>.
\<close>

theorem call_stack_sizing:
  fixes P :: "'a::len platform"
  assumes "grpc_channel_stack_init P filters filter_count args metadata_context stack s =
      Return () s1"
    and "channel_stack_fits P filters filter_count stack"
    and "sizeof_grpc_channel_element P \<noteq> 0"
  shows "channel_stack_call_stack_size s1 stack =
           Some (ROUND_UP_TO_ALIGNMENT_SIZE P (sizeof_grpc_call_stack P) +
                 ROUND_UP_TO_ALIGNMENT_SIZE P (filter_count * sizeof_grpc_call_element P) +
                 sum_list (map (\<lambda>f. ROUND_UP_TO_ALIGNMENT_SIZE P (sizeof_call_data f))
                         (take (unat filter_count) filters))) \<and>
         (\<exists>size s2. channel_stack_call_stack_size s1 stack = Some size \<and>
            call_stack_init_cursor P stack transport_server_data initial_op call_stack s1 =
              Return (call_stack + size) s2)"
  using call_stack_init_returns [OF assms, where call_stack = call_stack and
      tsd = transport_server_data and iop = initial_op]
  by (auto simp add: init_call_stack_size [OF assms])

text \<open>In the scenario the size is 128 and the cursor ends at 8192 + 128.\<close>

theorem call_stack_sizing_witness:
  "grpc_channel_stack_init platform_lp64 scenario_filters 3 7 9 4096 empty_state =
     Return () scenario_channel_state \<and>
   channel_stack_fits platform_lp64 scenario_filters 3 4096 \<and>
   sizeof_grpc_channel_element platform_lp64 \<noteq> 0 \<and>
   channel_stack_call_stack_size scenario_channel_state 4096 = Some 128 \<and>
   call_stack_init_cursor platform_lp64 4096 5 6 8192 scenario_channel_state =
     Return (8192 + 128) scenario_call_state"
proof -
  from call_stack_sizing [OF scenario_channel_built scenario_fits scenario_sizes(2),
      where transport_server_data = 5 and initial_op = 6 and call_stack = 8192]
  obtain s2 where
    z: "channel_stack_call_stack_size scenario_channel_state 4096 = Some 128"
    and c: "call_stack_init_cursor platform_lp64 4096 5 6 8192 scenario_channel_state =
      Return (8192 + 128) s2"
    by (auto simp add: scenario_values(1))
  from c scenario_call_built have "s2 = scenario_call_state"
    by (simp add: grpc_call_stack_init_def)
  with z c scenario_channel_built scenario_fits scenario_sizes(2) show ?thesis by simp
qed

section \<open>The direction of propagation\<close>

text \<open>
  Claim C5. Let a channel stack and a call stack on it be built as for the order of the
  hooks, and let \<open>t\<close> be what has been traced so far. From the channel element at
  index \<open>i\<close>, \<^verbatim>\<open>grpc_channel_next_op\<close> with an operation whose \<^verbatim>\<open>dir\<close> is 1 calls
  \<^verbatim>\<open>channel_op\<close> of the filter at index \<open>i + 1\<close> on the element at index \<open>i + 1\<close>,
  and with \<^verbatim>\<open>dir\<close> -1 that of index \<open>i - 1\<close> on the element at index \<open>i - 1\<close>; both
  pass the element at index \<open>i\<close> as \<^verbatim>\<open>from_elem\<close>, and the operation as it is. From the
  call element at index \<open>i\<close>, \<^verbatim>\<open>grpc_call_next_op\<close>, which takes no direction, calls
  \<^verbatim>\<open>start_transport_op\<close> of the filter at index \<open>i + 1\<close> on the element at index
  \<open>i + 1\<close>. Each is the only call made. The element named must be one of the stack:
  \<open>i + 1 < filter_count\<close>, or \<open>0 < i < filter_count\<close> for the direction -1.
\<close>

theorem propagation_direction:
  fixes P :: "'a::len platform"
  assumes init: "grpc_channel_stack_init P filters filter_count args metadata_context stack s =
      Return () s1"
    and fits: "channel_stack_fits P filters filter_count stack"
    and E: "sizeof_grpc_channel_element P \<noteq> 0"
    and cinit: "grpc_call_stack_init P stack transport_server_data initial_op call_stack s1 =
      Return () s2"
    and cfits: "call_stack_fits P filters filter_count call_stack"
    and Ec: "sizeof_grpc_call_element P \<noteq> 0"
  shows "(i + 1 < unat filter_count \<and> dir op = 1 \<longrightarrow>
            grpc_channel_next_op P (grpc_channel_stack_element P stack (of_nat i)) op
                (s2\<lparr>trace := t\<rparr>) =
              Return () (s2\<lparr>trace := t @
                [Channel_op (filters ! (i + 1))
                   (grpc_channel_stack_element P stack (of_nat (i + 1)))
                   (grpc_channel_stack_element P stack (of_nat i)) op]\<rparr>)) \<and>
         (0 < i \<and> i < unat filter_count \<and> dir op = - 1 \<longrightarrow>
            grpc_channel_next_op P (grpc_channel_stack_element P stack (of_nat i)) op
                (s2\<lparr>trace := t\<rparr>) =
              Return () (s2\<lparr>trace := t @
                [Channel_op (filters ! (i - 1))
                   (grpc_channel_stack_element P stack (of_nat (i - 1)))
                   (grpc_channel_stack_element P stack (of_nat i)) op]\<rparr>)) \<and>
         (i + 1 < unat filter_count \<longrightarrow>
            grpc_call_next_op P (grpc_call_stack_element P call_stack (of_nat i)) transport_op
                (s2\<lparr>trace := t\<rparr>) =
              Return () (s2\<lparr>trace := t @
                [Start_transport_op (filters ! (i + 1))
                   (grpc_call_stack_element P call_stack (of_nat (i + 1))) transport_op]\<rparr>))"
proof (intro conjI impI)
  note b = stacks_built [OF init fits E cinit cfits Ec]
  {
    assume a: "i + 1 < unat filter_count \<and> dir op = 1"
    then have "channel_elem_filter (s2\<lparr>trace := t\<rparr>)
        (grpc_channel_stack_element P stack (of_nat (Suc i))) = Some (filters ! Suc i)"
      using b(4) [of "Suc i"] by simp
    from channel_next_op_post [OF this] a
    show "grpc_channel_next_op P (grpc_channel_stack_element P stack (of_nat i)) op
                (s2\<lparr>trace := t\<rparr>) =
              Return () (s2\<lparr>trace := t @
                [Channel_op (filters ! (i + 1))
                   (grpc_channel_stack_element P stack (of_nat (i + 1)))
                   (grpc_channel_stack_element P stack (of_nat i)) op]\<rparr>)"
      by simp
  }
  {
    assume a: "0 < i \<and> i < unat filter_count \<and> dir op = - 1"
    then have "i - 1 < unat filter_count" by linarith
    then have "channel_elem_filter (s2\<lparr>trace := t\<rparr>)
        (grpc_channel_stack_element P stack (of_nat (i - 1))) = Some (filters ! (i - 1))"
      using b(4) [of "i - 1"] by simp
    from channel_prev_op_post [OF this] a
    show "grpc_channel_next_op P (grpc_channel_stack_element P stack (of_nat i)) op
                (s2\<lparr>trace := t\<rparr>) =
              Return () (s2\<lparr>trace := t @
                [Channel_op (filters ! (i - 1))
                   (grpc_channel_stack_element P stack (of_nat (i - 1)))
                   (grpc_channel_stack_element P stack (of_nat i)) op]\<rparr>)"
      by simp
  }
  {
    assume a: "i + 1 < unat filter_count"
    then have "call_elem_filter (s2\<lparr>trace := t\<rparr>)
        (grpc_call_stack_element P call_stack (of_nat (Suc i))) = Some (filters ! Suc i)"
      using b(5) [of "Suc i"] by simp
    from call_next_op_post [OF this]
    show "grpc_call_next_op P (grpc_call_stack_element P call_stack (of_nat i)) transport_op
                (s2\<lparr>trace := t\<rparr>) =
              Return () (s2\<lparr>trace := t @
                [Start_transport_op (filters ! (i + 1))
                   (grpc_call_stack_element P call_stack (of_nat (i + 1))) transport_op]\<rparr>)"
      by simp
  }
qed

text \<open>
  In the scenario, from the middle element: the channel operation goes to element 2 or
  to element 0, the transport operation to element 2.
\<close>

theorem propagation_direction_witness:
  "grpc_channel_stack_init platform_lp64 scenario_filters 3 7 9 4096 empty_state =
     Return () scenario_channel_state \<and>
   channel_stack_fits platform_lp64 scenario_filters 3 4096 \<and>
   sizeof_grpc_channel_element platform_lp64 \<noteq> 0 \<and>
   grpc_call_stack_init platform_lp64 4096 5 6 8192 scenario_channel_state =
     Return () scenario_call_state \<and>
   call_stack_fits platform_lp64 scenario_filters 3 8192 \<and>
   sizeof_grpc_call_element platform_lp64 \<noteq> 0 \<and>
   grpc_channel_next_op platform_lp64 4128 \<lparr>dir = 1, channel_op_fields = (\<lambda>_. 0)\<rparr>
       (scenario_call_state\<lparr>trace := []\<rparr>) =
     Return () (scenario_call_state\<lparr>trace :=
       [Channel_op (scenario_filters ! 2) 4144 4128
          \<lparr>dir = 1, channel_op_fields = (\<lambda>_. 0)\<rparr>]\<rparr>) \<and>
   grpc_channel_next_op platform_lp64 4128 \<lparr>dir = - 1, channel_op_fields = (\<lambda>_. 0)\<rparr>
       (scenario_call_state\<lparr>trace := []\<rparr>) =
     Return () (scenario_call_state\<lparr>trace :=
       [Channel_op (scenario_filters ! 0) 4112 4128
          \<lparr>dir = - 1, channel_op_fields = (\<lambda>_. 0)\<rparr>]\<rparr>) \<and>
   grpc_call_next_op platform_lp64 8232
       \<lparr>cancel_with_status = 0, transport_op_fields = (\<lambda>_. 0)\<rparr>
       (scenario_call_state\<lparr>trace := []\<rparr>) =
     Return () (scenario_call_state\<lparr>trace :=
       [Start_transport_op (scenario_filters ! 2) 8256
          \<lparr>cancel_with_status = 0, transport_op_fields = (\<lambda>_. 0)\<rparr>]\<rparr>)"
proof -
  note th = propagation_direction [OF scenario_channel_built scenario_fits scenario_sizes(2)
      scenario_call_built scenario_call_fits scenario_sizes(3), where i = 1 and t = "[]"]
  from th [where op = "\<lparr>dir = 1, channel_op_fields = (\<lambda>_. 0)\<rparr>" and
      transport_op = "\<lparr>cancel_with_status = 0, transport_op_fields = (\<lambda>_. 0)\<rparr>"]
    th [where op = "\<lparr>dir = - 1, channel_op_fields = (\<lambda>_. 0)\<rparr>" and
      transport_op = "\<lparr>cancel_with_status = 0, transport_op_fields = (\<lambda>_. 0)\<rparr>"]
  have "grpc_channel_next_op platform_lp64 4128 \<lparr>dir = 1, channel_op_fields = (\<lambda>_. 0)\<rparr>
       (scenario_call_state\<lparr>trace := []\<rparr>) =
     Return () (scenario_call_state\<lparr>trace :=
       [Channel_op (scenario_filters ! 2) 4144 4128
          \<lparr>dir = 1, channel_op_fields = (\<lambda>_. 0)\<rparr>]\<rparr>) \<and>
   grpc_channel_next_op platform_lp64 4128 \<lparr>dir = - 1, channel_op_fields = (\<lambda>_. 0)\<rparr>
       (scenario_call_state\<lparr>trace := []\<rparr>) =
     Return () (scenario_call_state\<lparr>trace :=
       [Channel_op (scenario_filters ! 0) 4112 4128
          \<lparr>dir = - 1, channel_op_fields = (\<lambda>_. 0)\<rparr>]\<rparr>) \<and>
   grpc_call_next_op platform_lp64 8232
       \<lparr>cancel_with_status = 0, transport_op_fields = (\<lambda>_. 0)\<rparr>
       (scenario_call_state\<lparr>trace := []\<rparr>) =
     Return () (scenario_call_state\<lparr>trace :=
       [Start_transport_op (scenario_filters ! 2) 8256
          \<lparr>cancel_with_status = 0, transport_op_fields = (\<lambda>_. 0)\<rparr>]\<rparr>)"
    using scenario_values(2-7) by (simp add: scenario_filters_def)
  with scenario_channel_built scenario_call_built scenario_fits scenario_call_fits
    scenario_sizes(2,3)
  show ?thesis by simp
qed

section \<open>Cancellation\<close>

text \<open>
  Claim C6, amended. Let a channel stack and a call stack on it be built as for the
  order of the hooks, let \<open>t\<close> be what has been traced so far, and let
  \<open>i + 1 < filter_count\<close>. \<^verbatim>\<open>grpc_call_element_send_cancel\<close> on the call element at
  index \<open>i\<close> makes one call: \<^verbatim>\<open>start_transport_op\<close> of the filter at index \<open>i + 1\<close>,
  on the element at index \<open>i + 1\<close>, with a transport operation whose fields are all 0
  except \<^verbatim>\<open>cancel_with_status\<close>, which is \<^verbatim>\<open>GRPC_STATUS_CANCELLED\<close>. With three
  filters, a cancellation from element 0 therefore reaches the handler of element 1.
  It reaches the handler of element \<open>i + 2\<close> when the handler of element \<open>i + 1\<close> passes
  the operation on with \<^verbatim>\<open>grpc_call_next_op\<close>, and then with the same status.
\<close>

theorem send_cancel_next_handler:
  fixes P :: "'a::len platform"
  assumes init: "grpc_channel_stack_init P filters filter_count args metadata_context stack s =
      Return () s1"
    and fits: "channel_stack_fits P filters filter_count stack"
    and E: "sizeof_grpc_channel_element P \<noteq> 0"
    and cinit: "grpc_call_stack_init P stack transport_server_data initial_op call_stack s1 =
      Return () s2"
    and cfits: "call_stack_fits P filters filter_count call_stack"
    and Ec: "sizeof_grpc_call_element P \<noteq> 0"
    and i: "i + 1 < unat filter_count"
  shows "grpc_call_element_send_cancel P (grpc_call_stack_element P call_stack (of_nat i))
             (s2\<lparr>trace := t\<rparr>) =
           Return () (s2\<lparr>trace := t @
             [Start_transport_op (filters ! (i + 1))
                (grpc_call_stack_element P call_stack (of_nat (i + 1)))
                \<lparr>cancel_with_status = GRPC_STATUS_CANCELLED P,
                 transport_op_fields = (\<lambda>_. 0)\<rparr>]\<rparr>) \<and>
         (i + 2 < unat filter_count \<longrightarrow>
            grpc_call_next_op P (grpc_call_stack_element P call_stack (of_nat (i + 1)))
                \<lparr>cancel_with_status = GRPC_STATUS_CANCELLED P, transport_op_fields = (\<lambda>_. 0)\<rparr>
                (s2\<lparr>trace := t @
                   [Start_transport_op (filters ! (i + 1))
                      (grpc_call_stack_element P call_stack (of_nat (i + 1)))
                      \<lparr>cancel_with_status = GRPC_STATUS_CANCELLED P,
                       transport_op_fields = (\<lambda>_. 0)\<rparr>]\<rparr>) =
              Return () (s2\<lparr>trace := t @
                [Start_transport_op (filters ! (i + 1))
                   (grpc_call_stack_element P call_stack (of_nat (i + 1)))
                   \<lparr>cancel_with_status = GRPC_STATUS_CANCELLED P,
                    transport_op_fields = (\<lambda>_. 0)\<rparr>,
                 Start_transport_op (filters ! (i + 2))
                   (grpc_call_stack_element P call_stack (of_nat (i + 2)))
                   \<lparr>cancel_with_status = GRPC_STATUS_CANCELLED P,
                    transport_op_fields = (\<lambda>_. 0)\<rparr>]\<rparr>))"
proof (intro conjI impI)
  note b = stacks_built [OF init fits E cinit cfits Ec]
  have "call_elem_filter (s2\<lparr>trace := t\<rparr>)
        (grpc_call_stack_element P call_stack (of_nat (Suc i))) = Some (filters ! Suc i)"
    using b(5) [of "Suc i"] i by simp
  from send_cancel_post [OF this]
  show "grpc_call_element_send_cancel P (grpc_call_stack_element P call_stack (of_nat i))
             (s2\<lparr>trace := t\<rparr>) =
           Return () (s2\<lparr>trace := t @
             [Start_transport_op (filters ! (i + 1))
                (grpc_call_stack_element P call_stack (of_nat (i + 1)))
                \<lparr>cancel_with_status = GRPC_STATUS_CANCELLED P,
                 transport_op_fields = (\<lambda>_. 0)\<rparr>]\<rparr>)"
    by simp
  let ?op = "\<lparr>cancel_with_status = GRPC_STATUS_CANCELLED P, transport_op_fields = (\<lambda>_. 0)\<rparr>"
  let ?t1 = "t @ [Start_transport_op (filters ! (i + 1))
                (grpc_call_stack_element P call_stack (of_nat (i + 1))) ?op]"
  assume "i + 2 < unat filter_count"
  then have "call_elem_filter (s2\<lparr>trace := ?t1\<rparr>)
        (grpc_call_stack_element P call_stack (of_nat (Suc (Suc i)))) = Some (filters ! Suc (Suc i))"
    using b(5) [of "Suc (Suc i)"] by simp
  from call_next_op_post [OF this, of ?op]
  show "grpc_call_next_op P (grpc_call_stack_element P call_stack (of_nat (i + 1))) ?op
                (s2\<lparr>trace := ?t1\<rparr>) =
              Return () (s2\<lparr>trace := t @
                [Start_transport_op (filters ! (i + 1))
                   (grpc_call_stack_element P call_stack (of_nat (i + 1))) ?op,
                 Start_transport_op (filters ! (i + 2))
                   (grpc_call_stack_element P call_stack (of_nat (i + 2))) ?op]\<rparr>)"
    by (simp add: numeral_2_eq_2)
qed

text \<open>In the scenario, from element 0 to element 1, and passed on to element 2.\<close>

theorem send_cancel_next_handler_witness:
  "grpc_channel_stack_init platform_lp64 scenario_filters 3 7 9 4096 empty_state =
     Return () scenario_channel_state \<and>
   channel_stack_fits platform_lp64 scenario_filters 3 4096 \<and>
   sizeof_grpc_channel_element platform_lp64 \<noteq> 0 \<and>
   grpc_call_stack_init platform_lp64 4096 5 6 8192 scenario_channel_state =
     Return () scenario_call_state \<and>
   call_stack_fits platform_lp64 scenario_filters 3 8192 \<and>
   sizeof_grpc_call_element platform_lp64 \<noteq> 0 \<and>
   0 + 1 < unat (3 :: 64 word) \<and> 0 + 2 < unat (3 :: 64 word) \<and>
   grpc_call_element_send_cancel platform_lp64 8208 (scenario_call_state\<lparr>trace := []\<rparr>) =
     Return () (scenario_call_state\<lparr>trace :=
       [Start_transport_op (scenario_filters ! 1) 8232
          \<lparr>cancel_with_status = 1, transport_op_fields = (\<lambda>_. 0)\<rparr>]\<rparr>) \<and>
   grpc_call_next_op platform_lp64 8232
       \<lparr>cancel_with_status = 1, transport_op_fields = (\<lambda>_. 0)\<rparr>
       (scenario_call_state\<lparr>trace :=
         [Start_transport_op (scenario_filters ! 1) 8232
            \<lparr>cancel_with_status = 1, transport_op_fields = (\<lambda>_. 0)\<rparr>]\<rparr>) =
     Return () (scenario_call_state\<lparr>trace :=
       [Start_transport_op (scenario_filters ! 1) 8232
          \<lparr>cancel_with_status = 1, transport_op_fields = (\<lambda>_. 0)\<rparr>,
        Start_transport_op (scenario_filters ! 2) 8256
          \<lparr>cancel_with_status = 1, transport_op_fields = (\<lambda>_. 0)\<rparr>]\<rparr>)"
proof -
  have i: "0 + 1 < unat (3 :: 64 word)" "0 + 2 < unat (3 :: 64 word)" by simp_all
  have c: "GRPC_STATUS_CANCELLED platform_lp64 = 1" by (simp add: platform_lp64_def)
  from send_cancel_next_handler [OF scenario_channel_built scenario_fits scenario_sizes(2)
      scenario_call_built scenario_call_fits scenario_sizes(3) i(1), where t = "[]"]
  have "grpc_call_element_send_cancel platform_lp64 8208 (scenario_call_state\<lparr>trace := []\<rparr>) =
     Return () (scenario_call_state\<lparr>trace :=
       [Start_transport_op (scenario_filters ! 1) 8232
          \<lparr>cancel_with_status = 1, transport_op_fields = (\<lambda>_. 0)\<rparr>]\<rparr>) \<and>
   grpc_call_next_op platform_lp64 8232
       \<lparr>cancel_with_status = 1, transport_op_fields = (\<lambda>_. 0)\<rparr>
       (scenario_call_state\<lparr>trace :=
         [Start_transport_op (scenario_filters ! 1) 8232
            \<lparr>cancel_with_status = 1, transport_op_fields = (\<lambda>_. 0)\<rparr>]\<rparr>) =
     Return () (scenario_call_state\<lparr>trace :=
       [Start_transport_op (scenario_filters ! 1) 8232
          \<lparr>cancel_with_status = 1, transport_op_fields = (\<lambda>_. 0)\<rparr>,
        Start_transport_op (scenario_filters ! 2) 8256
          \<lparr>cancel_with_status = 1, transport_op_fields = (\<lambda>_. 0)\<rparr>]\<rparr>)"
    using scenario_values(2-7) by (simp add: c scenario_filters_def)
  with scenario_channel_built scenario_call_built scenario_fits scenario_call_fits
    scenario_sizes(2,3) i
  show ?thesis by simp
qed

text \<open>
  The claim as first stated has the cancellation from element 0 of three filters reach
  the handler of element 2. The one call \<^verbatim>\<open>grpc_call_element_send_cancel\<close> makes in
  the scenario is to the handler of the filter \<open>f1\<close> on element 1, another filter and
  another element than those of index 2.
\<close>

theorem send_cancel_counterexample:
  "grpc_channel_stack_init platform_lp64 scenario_filters 3 7 9 4096 empty_state =
     Return () scenario_channel_state \<and>
   grpc_call_stack_init platform_lp64 4096 5 6 8192 scenario_channel_state =
     Return () scenario_call_state \<and>
   grpc_call_element_send_cancel platform_lp64
       (grpc_call_stack_element platform_lp64 8192 0) (scenario_call_state\<lparr>trace := []\<rparr>) =
     Return () (scenario_call_state\<lparr>trace :=
       [Start_transport_op (scenario_filters ! 1)
          (grpc_call_stack_element platform_lp64 8192 1)
          \<lparr>cancel_with_status = 1, transport_op_fields = (\<lambda>_. 0)\<rparr>]\<rparr>) \<and>
   scenario_filters ! 1 \<noteq> scenario_filters ! 2 \<and>
   grpc_call_stack_element platform_lp64 8192 1 \<noteq>
     grpc_call_stack_element platform_lp64 8192 2"
proof -
  note b = stacks_built [OF scenario_channel_built scenario_fits scenario_sizes(2)
      scenario_call_built scenario_call_fits scenario_sizes(3)]
  have "call_elem_filter (scenario_call_state\<lparr>trace := []\<rparr>)
      (grpc_call_stack_element platform_lp64 8192 (of_nat (Suc 0))) = Some (scenario_filters ! Suc 0)"
    using b(5) [of "Suc 0"] by simp
  from send_cancel_post [OF this]
  have "grpc_call_element_send_cancel platform_lp64
       (grpc_call_stack_element platform_lp64 8192 0) (scenario_call_state\<lparr>trace := []\<rparr>) =
     Return () (scenario_call_state\<lparr>trace :=
       [Start_transport_op (scenario_filters ! 1)
          (grpc_call_stack_element platform_lp64 8192 1)
          \<lparr>cancel_with_status = 1, transport_op_fields = (\<lambda>_. 0)\<rparr>]\<rparr>)"
    by (simp add: platform_lp64_def)
  moreover have "scenario_filters ! 1 \<noteq> scenario_filters ! 2"
    by (simp add: scenario_filters_def)
  moreover have "grpc_call_stack_element platform_lp64 8192 1 \<noteq>
        grpc_call_stack_element platform_lp64 8192 2"
    using scenario_values(6,7) by simp
  ultimately show ?thesis using scenario_channel_built scenario_call_built by simp
qed

section \<open>The order of the hooks\<close>

text \<open>
  Claim C7. Let a channel stack of \<open>filter_count\<close> filters and a call stack on it be
  built by \<^verbatim>\<open>grpc_channel_stack_init\<close> and \<^verbatim>\<open>grpc_call_stack_init\<close>, each in memory
  inside the address space, with elements of a size other than 0. The init hooks were
  called once per index in the order \<open>0, \<dots>, filter_count - 1\<close>. Whatever has been traced
  since (\<open>t\<close>), \<^verbatim>\<open>grpc_call_stack_destroy\<close> returns after calling
  \<^verbatim>\<open>destroy_call_elem\<close> of the filter of each index once, on that index's element, in
  the order \<open>0, \<dots>, filter_count - 1\<close>, and nothing else; and so does
  \<^verbatim>\<open>grpc_channel_stack_destroy\<close> with \<^verbatim>\<open>destroy_channel_elem\<close>.
\<close>

theorem hook_order:
  fixes P :: "'a::len platform"
  assumes init: "grpc_channel_stack_init P filters filter_count args metadata_context stack s =
      Return () s1"
    and fits: "channel_stack_fits P filters filter_count stack"
    and E: "sizeof_grpc_channel_element P \<noteq> 0"
    and cinit: "grpc_call_stack_init P stack transport_server_data initial_op call_stack s1 =
      Return () s2"
    and cfits: "call_stack_fits P filters filter_count call_stack"
    and Ec: "sizeof_grpc_call_element P \<noteq> 0"
  shows "trace s1 = trace s @
           map (\<lambda>i. Init_channel_elem (filters ! i)
                     (grpc_channel_stack_element P stack (of_nat i)) args metadata_context
                     (i = 0) (of_nat i = filter_count - 1)) [0..<unat filter_count] \<and>
         trace s2 = trace s1 @
           map (\<lambda>i. Init_call_elem (filters ! i)
                     (grpc_call_stack_element P call_stack (of_nat i))
                     transport_server_data initial_op) [0..<unat filter_count] \<and>
         grpc_call_stack_destroy P call_stack (s2\<lparr>trace := t\<rparr>) =
           Return () (s2\<lparr>trace := t @
             map (\<lambda>i. Destroy_call_elem (filters ! i)
                       (grpc_call_stack_element P call_stack (of_nat i)))
               [0..<unat filter_count]\<rparr>) \<and>
         grpc_channel_stack_destroy P stack (s2\<lparr>trace := t\<rparr>) =
           Return () (s2\<lparr>trace := t @
             map (\<lambda>i. Destroy_channel_elem (filters ! i)
                       (grpc_channel_stack_element P stack (of_nat i)))
               [0..<unat filter_count]\<rparr>)"
proof -
  note b = stacks_built [OF init fits E cinit cfits Ec]
  have "grpc_call_stack_destroy P call_stack (s2\<lparr>trace := t\<rparr>) =
           Return () (s2\<lparr>trace := t\<rparr>\<lparr>trace := trace (s2\<lparr>trace := t\<rparr>) @
             map (\<lambda>i. Destroy_call_elem (filters ! i)
                       (grpc_call_stack_element P call_stack (of_nat i)))
               [0..<unat filter_count]\<rparr>)"
    by (rule call_stack_destroy_post) (simp_all add: b)
  moreover have "grpc_channel_stack_destroy P stack (s2\<lparr>trace := t\<rparr>) =
           Return () (s2\<lparr>trace := t\<rparr>\<lparr>trace := trace (s2\<lparr>trace := t\<rparr>) @
             map (\<lambda>i. Destroy_channel_elem (filters ! i)
                       (grpc_channel_stack_element P stack (of_nat i)))
               [0..<unat filter_count]\<rparr>)"
    by (rule channel_stack_destroy_post) (simp_all add: b)
  ultimately show ?thesis
    using init_trace [OF init fits E] b(1) by simp
qed

text \<open>The four traces in the scenario.\<close>

theorem hook_order_witness:
  "grpc_channel_stack_init platform_lp64 scenario_filters 3 7 9 4096 empty_state =
     Return () scenario_channel_state \<and>
   channel_stack_fits platform_lp64 scenario_filters 3 4096 \<and>
   sizeof_grpc_channel_element platform_lp64 \<noteq> 0 \<and>
   grpc_call_stack_init platform_lp64 4096 5 6 8192 scenario_channel_state =
     Return () scenario_call_state \<and>
   call_stack_fits platform_lp64 scenario_filters 3 8192 \<and>
   sizeof_grpc_call_element platform_lp64 \<noteq> 0 \<and>
   trace scenario_channel_state =
     [Init_channel_elem (scenario_filters ! 0) 4112 7 9 True False,
      Init_channel_elem (scenario_filters ! 1) 4128 7 9 False False,
      Init_channel_elem (scenario_filters ! 2) 4144 7 9 False True] \<and>
   trace scenario_call_state = trace scenario_channel_state @
     [Init_call_elem (scenario_filters ! 0) 8208 5 6,
      Init_call_elem (scenario_filters ! 1) 8232 5 6,
      Init_call_elem (scenario_filters ! 2) 8256 5 6] \<and>
   grpc_call_stack_destroy platform_lp64 8192 (scenario_call_state\<lparr>trace := []\<rparr>) =
     Return () (scenario_call_state\<lparr>trace :=
       [Destroy_call_elem (scenario_filters ! 0) 8208,
        Destroy_call_elem (scenario_filters ! 1) 8232,
        Destroy_call_elem (scenario_filters ! 2) 8256]\<rparr>) \<and>
   grpc_channel_stack_destroy platform_lp64 4096 (scenario_call_state\<lparr>trace := []\<rparr>) =
     Return () (scenario_call_state\<lparr>trace :=
       [Destroy_channel_elem (scenario_filters ! 0) 4112,
        Destroy_channel_elem (scenario_filters ! 1) 4128,
        Destroy_channel_elem (scenario_filters ! 2) 4144]\<rparr>)"
proof -
  have u: "[0..<unat (3 :: 64 word)] = [0, 1, 2]"
    by (simp add: upt_conv_Cons)
  have e: "trace empty_state = []" by (simp add: empty_state_def)
  from hook_order [OF scenario_channel_built scenario_fits scenario_sizes(2)
      scenario_call_built scenario_call_fits scenario_sizes(3), where t = "[]"]
  have "trace scenario_channel_state =
     [Init_channel_elem (scenario_filters ! 0) 4112 7 9 True False,
      Init_channel_elem (scenario_filters ! 1) 4128 7 9 False False,
      Init_channel_elem (scenario_filters ! 2) 4144 7 9 False True] \<and>
   trace scenario_call_state = trace scenario_channel_state @
     [Init_call_elem (scenario_filters ! 0) 8208 5 6,
      Init_call_elem (scenario_filters ! 1) 8232 5 6,
      Init_call_elem (scenario_filters ! 2) 8256 5 6] \<and>
   grpc_call_stack_destroy platform_lp64 8192 (scenario_call_state\<lparr>trace := []\<rparr>) =
     Return () (scenario_call_state\<lparr>trace :=
       [Destroy_call_elem (scenario_filters ! 0) 8208,
        Destroy_call_elem (scenario_filters ! 1) 8232,
        Destroy_call_elem (scenario_filters ! 2) 8256]\<rparr>) \<and>
   grpc_channel_stack_destroy platform_lp64 4096 (scenario_call_state\<lparr>trace := []\<rparr>) =
     Return () (scenario_call_state\<lparr>trace :=
       [Destroy_channel_elem (scenario_filters ! 0) 4112,
        Destroy_channel_elem (scenario_filters ! 1) 4128,
        Destroy_channel_elem (scenario_filters ! 2) 4144]\<rparr>)"
    unfolding u e using scenario_values(2-7) by simp
  with scenario_channel_built scenario_call_built scenario_fits scenario_call_fits
    scenario_sizes(2,3)
  show ?thesis by simp
qed

section \<open>The element accessor\<close>

text \<open>
  Claim C8. The accessor of a channel stack returns the address of the header, plus
  the aligned size of the header, plus the index times the size of an element; the one
  of a call stack likewise. Let \<^verbatim>\<open>grpc_channel_stack_init\<close> return on a channel stack
  whose memory lies inside the address space, with elements of a size other than 0.
  For indices \<open>i < j < filter_count\<close> the address of element \<open>i\<close> is below that of
  element \<open>j\<close> (and so for a call stack that lies inside the address space), and the
  data region of filter \<open>i\<close>, which starts at the \<^verbatim>\<open>channel_data\<close> stored in element
  \<open>i\<close> and spans \<^verbatim>\<open>sizeof_channel_data\<close> bytes, ends at or before the start of the
  region of filter \<open>j\<close>.
\<close>

theorem element_accessor_law:
  fixes P :: "'a::len platform"
  assumes init: "grpc_channel_stack_init P filters filter_count args metadata_context stack s =
      Return () s1"
    and fits: "channel_stack_fits P filters filter_count stack"
    and E: "sizeof_grpc_channel_element P \<noteq> 0"
  shows "grpc_channel_stack_element P stack index =
           stack + ROUND_UP_TO_ALIGNMENT_SIZE P (sizeof_grpc_channel_stack P) +
           index * sizeof_grpc_channel_element P \<and>
         grpc_call_stack_element P call_stack index =
           call_stack + ROUND_UP_TO_ALIGNMENT_SIZE P (sizeof_grpc_call_stack P) +
           index * sizeof_grpc_call_element P \<and>
         (i < j \<and> j < unat filter_count \<longrightarrow>
            grpc_channel_stack_element P stack (of_nat i) <
            grpc_channel_stack_element P stack (of_nat j)) \<and>
         (call_stack_fits P filters filter_count call_stack \<and>
          sizeof_grpc_call_element P \<noteq> 0 \<and> i < j \<and> j < unat filter_count \<longrightarrow>
            grpc_call_stack_element P call_stack (of_nat i) <
            grpc_call_stack_element P call_stack (of_nat j)) \<and>
         (i < j \<and> j < unat filter_count \<longrightarrow>
            (\<exists>ci cj.
               channel_elem_channel_data s1 (grpc_channel_stack_element P stack (of_nat i)) =
                 Some ci \<and>
               channel_elem_channel_data s1 (grpc_channel_stack_element P stack (of_nat j)) =
                 Some cj \<and>
               unat ci + unat (sizeof_channel_data (filters ! i)) \<le> unat cj))"
proof (intro conjI impI)
  note p = channel_stack_init_power_of_two [OF init]
  note len = init_len [OF init fits E]
  show "grpc_channel_stack_element P stack index =
           stack + ROUND_UP_TO_ALIGNMENT_SIZE P (sizeof_grpc_channel_stack P) +
           index * sizeof_grpc_channel_element P"
    by (simp add: grpc_channel_stack_element_def CHANNEL_ELEMS_FROM_STACK_def)
  show "grpc_call_stack_element P call_stack index =
           call_stack + ROUND_UP_TO_ALIGNMENT_SIZE P (sizeof_grpc_call_stack P) +
           index * sizeof_grpc_call_element P"
    by (simp add: grpc_call_stack_element_def CALL_ELEMS_FROM_STACK_def)
  {
    assume a: "i < j \<and> j < unat filter_count"
    then show "grpc_channel_stack_element P stack (of_nat i) <
            grpc_channel_stack_element P stack (of_nat j)"
      using channel_elems_distinct [OF p fits E, of i j]
      by (simp add: word_less_nat_alt grpc_channel_stack_element_def)
    from a have i: "i < unat filter_count" by linarith
    from a init_elem [OF init fits E i] init_elem [OF init fits E, of j]
      channel_data_regions_apart [OF p fits len, of i j]
    show "\<exists>ci cj.
               channel_elem_channel_data s1 (grpc_channel_stack_element P stack (of_nat i)) =
                 Some ci \<and>
               channel_elem_channel_data s1 (grpc_channel_stack_element P stack (of_nat j)) =
                 Some cj \<and>
               unat ci + unat (sizeof_channel_data (filters ! i)) \<le> unat cj"
      by simp
  }
  assume "call_stack_fits P filters filter_count call_stack \<and>
          sizeof_grpc_call_element P \<noteq> 0 \<and> i < j \<and> j < unat filter_count"
  then show "grpc_call_stack_element P call_stack (of_nat i) <
            grpc_call_stack_element P call_stack (of_nat j)"
    using call_elems_distinct [OF p, of filters filter_count call_stack i j]
    by (simp add: word_less_nat_alt grpc_call_stack_element_def)
qed

text \<open>The accessor and the regions of filters 0 and 2 in the scenario.\<close>

theorem element_accessor_law_witness:
  "grpc_channel_stack_init platform_lp64 scenario_filters 3 7 9 4096 empty_state =
     Return () scenario_channel_state \<and>
   channel_stack_fits platform_lp64 scenario_filters 3 4096 \<and>
   sizeof_grpc_channel_element platform_lp64 \<noteq> 0 \<and>
   call_stack_fits platform_lp64 scenario_filters 3 8192 \<and>
   sizeof_grpc_call_element platform_lp64 \<noteq> 0 \<and>
   (0 :: nat) < 2 \<and> 2 < unat (3 :: 64 word) \<and>
   grpc_channel_stack_element platform_lp64 4096 2 = 4096 + 16 + 2 * 16 \<and>
   grpc_call_stack_element platform_lp64 8192 2 = 8192 + 16 + 2 * 24 \<and>
   grpc_channel_stack_element platform_lp64 4096 0 <
     grpc_channel_stack_element platform_lp64 4096 2 \<and>
   grpc_call_stack_element platform_lp64 8192 0 < grpc_call_stack_element platform_lp64 8192 2 \<and>
   channel_elem_channel_data scenario_channel_state
     (grpc_channel_stack_element platform_lp64 4096 0) = Some 4160 \<and>
   channel_elem_channel_data scenario_channel_state
     (grpc_channel_stack_element platform_lp64 4096 2) = Some 4176 \<and>
   unat (4160 :: 64 word) + unat (sizeof_channel_data (scenario_filters ! 0)) \<le>
     unat (4176 :: 64 word)"
proof -
  note s1 = scenario_channel_built
  have r: "ROUND_UP_TO_ALIGNMENT_SIZE platform_lp64 (sizeof_grpc_channel_stack platform_lp64) = 16"
    "ROUND_UP_TO_ALIGNMENT_SIZE platform_lp64 (sizeof_grpc_call_stack platform_lp64) = 16"
    "sizeof_grpc_channel_element platform_lp64 = 16" "sizeof_grpc_call_element platform_lp64 = 24"
    by (simp_all add: ROUND_UP_TO_ALIGNMENT_SIZE_def platform_lp64_def)
  have d: "channel_elem_channel_data scenario_channel_state
       (grpc_channel_stack_element platform_lp64 4096 0) = Some 4160"
    "channel_elem_channel_data scenario_channel_state
       (grpc_channel_stack_element platform_lp64 4096 2) = Some 4176"
    using init_elem [OF s1 scenario_fits scenario_sizes(2), of 0]
      init_elem [OF s1 scenario_fits scenario_sizes(2), of 2]
    by (simp_all add: ROUND_UP_TO_ALIGNMENT_SIZE_def CHANNEL_ELEMS_FROM_STACK_def
        platform_lp64_def scenario_filters_def)
  from element_accessor_law [OF s1 scenario_fits scenario_sizes(2),
      where i = 0 and j = 2 and index = 2 and call_stack = 8192]
    scenario_call_fits scenario_sizes(3) d
  have "grpc_channel_stack_element platform_lp64 4096 2 = 4096 + 16 + 2 * 16 \<and>
   grpc_call_stack_element platform_lp64 8192 2 = 8192 + 16 + 2 * 24 \<and>
   grpc_channel_stack_element platform_lp64 4096 0 <
     grpc_channel_stack_element platform_lp64 4096 2 \<and>
   grpc_call_stack_element platform_lp64 8192 0 < grpc_call_stack_element platform_lp64 8192 2 \<and>
   unat (4160 :: 64 word) + unat (sizeof_channel_data (scenario_filters ! 0)) \<le>
     unat (4176 :: 64 word)"
    by (auto simp add: r)
  with s1 d scenario_fits scenario_call_fits scenario_sizes(2,3) show ?thesis by auto
qed

section \<open>The status-delivery stub\<close>

text \<open>
  Claim C9. For every call element, status code and message,
  \<^verbatim>\<open>grpc_call_element_recv_status\<close> stops the process with \<^verbatim>\<open>abort()\<close>: it never
  returns, and the state it stops in is the state it was called in, so no filter
  handler has been called (the trace is the same) and no header or element has
  changed.
\<close>

theorem recv_status_aborts:
  "grpc_call_element_recv_status P cur_elem status message s = Fail Aborted s \<and>
   (\<forall>r s'. grpc_call_element_recv_status P cur_elem status message s \<noteq> Return r s')"
  by (simp add: grpc_call_element_recv_status_def)

section \<open>The empty filter list\<close>

text \<open>
  Claim C10. Let the alignment be a power of two, the channel stack header have a
  size other than 0, and the memory of the stack lie inside the address space. With
  \<open>filter_count = 0\<close>, \<^verbatim>\<open>grpc_channel_stack_size\<close> returns exactly the aligned size
  of the header, which is positive, and \<^verbatim>\<open>grpc_channel_stack_init\<close> returns: both of
  its assertions hold. The state it returns in is the one it started in but for the
  header, where \<^verbatim>\<open>count\<close> is 0 and \<^verbatim>\<open>call_stack_size\<close> is the aligned size of the
  call stack header plus the aligned size of an empty element table; the trace is the
  same, so no hook was called.
\<close>

theorem empty_filter_list_accepted:
  fixes P :: "'a::len platform"
  assumes p: "is_power_of_two (GPR_MAX_ALIGNMENT P)"
    and H: "sizeof_grpc_channel_stack P \<noteq> 0"
    and fits: "channel_stack_fits P filters 0 stack"
  shows "grpc_channel_stack_size P filters 0 =
           Inr (ROUND_UP_TO_ALIGNMENT_SIZE P (sizeof_grpc_channel_stack P)) \<and>
         0 < ROUND_UP_TO_ALIGNMENT_SIZE P (sizeof_grpc_channel_stack P) \<and>
         grpc_channel_stack_init P filters 0 args metadata_context stack s =
           Return ()
             (s\<lparr>channel_stack_count := (channel_stack_count s)(stack \<mapsto> 0),
                channel_stack_call_stack_size := (channel_stack_call_stack_size s)(stack \<mapsto>
                  ROUND_UP_TO_ALIGNMENT_SIZE P (sizeof_grpc_call_stack P) +
                  ROUND_UP_TO_ALIGNMENT_SIZE P (0 * sizeof_grpc_call_element P))\<rparr>)"
proof -
  let ?a = "unat (GPR_MAX_ALIGNMENT P)"
  let ?RH = "ROUND_UP_TO_ALIGNMENT_SIZE P (sizeof_grpc_channel_stack P)"
  have f: "unat stack + round_up_nat ?a (unat (sizeof_grpc_channel_stack P)) < 2 ^ LENGTH('a)"
    using fits by (simp add: channel_stack_fits_def channel_stack_extent_def)
  then have e: "unat ?RH = round_up_nat ?a (unat (sizeof_grpc_channel_stack P))"
    using p by (intro round_up_exact_lt) simp_all
  have "0 < unat (sizeof_grpc_channel_stack P)" using H by (simp add: unat_gt_0)
  moreover have "unat (sizeof_grpc_channel_stack P) \<le>
      round_up_nat ?a (unat (sizeof_grpc_channel_stack P))"
    using power_of_two_unat_pos [OF p] by (rule round_up_nat_ge)
  ultimately have pos: "0 < unat ?RH" using e by linarith
  then have pos': "0 < ?RH" by (simp add: word_less_nat_alt)
  have "unat (stack + ?RH) = unat stack + unat ?RH"
    using f e by (simp add: unat_add_exact)
  then have lt: "stack < stack + ?RH"
    using pos by (simp add: word_less_nat_alt)
  have sz: "grpc_channel_stack_size P filters 0 = Inr ?RH"
    using p by (simp add: grpc_channel_stack_size_eq pow2_and_pred round_up_0)
  have c: "channel_stack_init_cursor P filters 0 args metadata_context stack s =
      Return (stack + ?RH,
              ROUND_UP_TO_ALIGNMENT_SIZE P (sizeof_grpc_call_stack P) +
              ROUND_UP_TO_ALIGNMENT_SIZE P (0 * sizeof_grpc_call_element P))
        (s\<lparr>channel_stack_count := (channel_stack_count s)(stack \<mapsto> 0)\<rparr>)"
    by (simp add: channel_stack_init_cursor_def Let_def channel_init_loop_unfold
        CHANNEL_ELEMS_FROM_STACK_def round_up_0)
  show ?thesis
    using sz pos' lt by (simp add: grpc_channel_stack_init_def c)
qed

text \<open>The empty list on the LP64 platform, with the stack at address 4096.\<close>

theorem empty_filter_list_accepted_witness:
  "is_power_of_two (GPR_MAX_ALIGNMENT platform_lp64) \<and>
   sizeof_grpc_channel_stack platform_lp64 \<noteq> 0 \<and>
   channel_stack_fits platform_lp64 [] 0 4096 \<and>
   grpc_channel_stack_size platform_lp64 [] 0 = Inr 16 \<and>
   grpc_channel_stack_init platform_lp64 [] 0 7 9 4096 empty_state =
     Return ()
       (empty_state\<lparr>channel_stack_count := (channel_stack_count empty_state)(4096 \<mapsto> 0),
          channel_stack_call_stack_size :=
            (channel_stack_call_stack_size empty_state)(4096 \<mapsto> 16)\<rparr>)"
proof -
  have h: "sizeof_grpc_channel_stack platform_lp64 \<noteq> 0"
    by (simp add: platform_lp64_def)
  have f: "channel_stack_fits platform_lp64 [] 0 4096"
    by (simp add: channel_stack_fits_def channel_stack_extent_def round_up_nat_def
        platform_lp64_def)
  have r: "ROUND_UP_TO_ALIGNMENT_SIZE platform_lp64 (sizeof_grpc_channel_stack platform_lp64) = 16"
    "ROUND_UP_TO_ALIGNMENT_SIZE platform_lp64 (sizeof_grpc_call_stack platform_lp64) = 16"
    by (simp_all add: ROUND_UP_TO_ALIGNMENT_SIZE_def platform_lp64_def)
  from empty_filter_list_accepted [OF platform_lp64_power_of_two h f, of 7 9 empty_state]
  show ?thesis
    using platform_lp64_power_of_two h f by (simp add: r round_up_0)
qed

end
